theory Spec2Isabelle
  imports Main
begin

section \<open>Values of the host language\<close>

text \<open>
  The engine of \<^verbatim>\<open>src/index.tsx\<close> (the version with styles, inversions and
  variations, lines 906 to 1299, and the handlers of its \<^verbatim>\<open>App\<close> component) is
  TypeScript. Its numbers are integers wherever the engine computes with them; the two
  non-integer results that can arise are kept as values of their own. A thrown exception
  is a value of type \<open>error\<close>.
\<close>

datatype error = TypeError

datatype jsnum = Num int | Infinity | NaN

text \<open>The remainder operator \<^verbatim>\<open>%\<close> on integers takes the sign of the dividend
  (the divisor is never zero where this is used).\<close>

definition jsrem :: "int \<Rightarrow> int \<Rightarrow> int" where
  "jsrem a b = sgn a * (\<bar>a\<bar> mod \<bar>b\<bar>)"

text \<open>\<^verbatim>\<open>Array.prototype.indexOf\<close>: the first position of the element, or -1.\<close>

fun indexOf :: "'a list \<Rightarrow> 'a \<Rightarrow> int" where
  "indexOf [] x = -1"
| "indexOf (y # ys) x =
     (if y = x then 0 else (let r = indexOf ys x in if r = -1 then -1 else r + 1))"

text \<open>
  Reading an array of strings at an index. A read outside the array gives the value
  \<^verbatim>\<open>undefined\<close>; it is represented by the string a template literal prints for it,
  which \<^verbatim>\<open>indexOf\<close> finds in none of the tables below, as it finds
  \<^verbatim>\<open>undefined\<close> in none.
\<close>

definition at :: "string list \<Rightarrow> int \<Rightarrow> string" where
  "at xs k = (if 0 \<le> k \<and> k < int (length xs) then xs ! nat k else ''undefined'')"

text \<open>Decimal printing of a number inside a template literal.\<close>

fun show_nat :: "nat \<Rightarrow> string" where
  "show_nat n =
     (if n < 10 then [char_of (48 + n)]
      else show_nat (n div 10) @ [char_of (48 + n mod 10)])"

definition toString :: "int \<Rightarrow> string" where
  "toString k = (if k < 0 then CHR ''-'' # show_nat (nat (- k)) else show_nat (nat k))"

text \<open>\<^verbatim>\<open>String.prototype.toUpperCase\<close> on the letters a to z (the strings it is
  applied to are Roman numerals in lower case).\<close>

definition toUpperCase :: "string \<Rightarrow> string" where
  "toUpperCase s =
     map (\<lambda>c. if 97 \<le> (of_char c :: nat) \<and> (of_char c :: nat) \<le> 122
              then char_of ((of_char c :: nat) - 32) else c) s"

definition startsWith :: "string \<Rightarrow> string \<Rightarrow> bool" where
  "startsWith s p = (take (length p) s = p)"

text \<open>\<^verbatim>\<open>s.includes(c)\<close> and \<^verbatim>\<open>s.replace(c, r)\<close> for a pattern of one character;
  \<^verbatim>\<open>replace\<close> with a string pattern replaces the first occurrence only.\<close>

definition str_includes :: "string \<Rightarrow> char \<Rightarrow> bool" where
  "str_includes s c = (c \<in> set s)"

fun replace :: "string \<Rightarrow> char \<Rightarrow> string \<Rightarrow> string" where
  "replace [] c r = []"
| "replace (x # xs) c r = (if x = c then r @ xs else x # replace xs c r)"

text \<open>\<^verbatim>\<open>Math.min(...xs)\<close> is \<^verbatim>\<open>Infinity\<close> on no arguments, and \<^verbatim>\<open>v || d\<close>
  replaces the falsy numbers 0 and \<^verbatim>\<open>NaN\<close>.\<close>

fun Math_min :: "int list \<Rightarrow> jsnum" where
  "Math_min [] = Infinity"
| "Math_min (x # xs) = Num (fold min xs x)"

fun or_else :: "jsnum \<Rightarrow> int \<Rightarrow> jsnum" where
  "or_else (Num k) d = (if k = 0 then Num d else Num k)"
| "or_else Infinity d = Infinity"
| "or_else NaN d = Num d"

section \<open>The music theory engine\<close>

subsection \<open>Tables\<close>

definition ALL_NOTES :: "string list" where
  "ALL_NOTES = [''C'', ''C#'', ''D'', ''D#'', ''E'', ''F'', ''F#'', ''G'', ''G#'', ''A'', ''A#'', ''B'']"

text \<open>An object literal used as a dictionary is the list of its own entries, in the
  order of the source; \<open>map_of\<close> reads it.\<close>

definition SCALE_PATTERNS :: "(string \<times> int list) list" where
  "SCALE_PATTERNS =
    [(''Major'', [0, 2, 4, 5, 7, 9, 11]),
     (''Natural Minor'', [0, 2, 3, 5, 7, 8, 10]),
     (''Melodic Minor (Jazz)'', [0, 2, 3, 5, 7, 9, 11]),
     (''Harmonic Minor'', [0, 2, 3, 5, 7, 8, 11]),
     (''Dorian'', [0, 2, 3, 5, 7, 9, 10]),
     (''Mixolydian'', [0, 2, 4, 5, 7, 9, 10]),
     (''Locrian'', [0, 1, 3, 5, 6, 8, 10]),
     (''Phrygian'', [0, 1, 3, 5, 7, 8, 10]),
     (''Lydian'', [0, 2, 4, 6, 7, 9, 11])]"

definition ROMAN_NUMERALS :: "string list" where
  "ROMAN_NUMERALS = [''i'', ''ii'', ''iii'', ''iv'', ''v'', ''vi'', ''vii'']"

record shape =
  eShape :: "int list"
  aShape :: "int list"

definition CHORD_SHAPES :: "(string \<times> shape) list" where
  "CHORD_SHAPES =
    [('''', \<lparr>eShape = [0, 2, 2, 1, 0, 0], aShape = [-1, 0, 2, 2, 2, 0]\<rparr>),
     (''m'', \<lparr>eShape = [0, 2, 2, 0, 0, 0], aShape = [-1, 0, 2, 2, 1, 0]\<rparr>),
     (''dim'', \<lparr>eShape = [0, 1, 2, 0, -1, -1], aShape = [-1, 0, 1, 2, 1, -1]\<rparr>),
     (''sus4'', \<lparr>eShape = [0, 2, 2, 2, 0, 0], aShape = [-1, 0, 2, 2, 3, 0]\<rparr>),
     (''sus2'', \<lparr>eShape = [0, 2, 4, 4, 0, 0], aShape = [-1, 0, 2, 2, 0, 0]\<rparr>),
     (''add9'', \<lparr>eShape = [0, 2, 4, 1, 0, 0], aShape = [-1, 0, 2, 4, 2, 0]\<rparr>),
     (''6'', \<lparr>eShape = [0, 2, 2, 1, 2, 0], aShape = [-1, 0, 2, 2, 2, 2]\<rparr>),
     (''maj7'', \<lparr>eShape = [0, 2, 1, 1, 0, 0], aShape = [-1, 0, 2, 1, 2, 0]\<rparr>),
     (''m7'', \<lparr>eShape = [0, 2, 0, 0, 0, 0], aShape = [-1, 0, 2, 0, 1, 0]\<rparr>),
     (''7'', \<lparr>eShape = [0, 2, 0, 1, 0, 0], aShape = [-1, 0, 2, 0, 2, 0]\<rparr>),
     (''7sus4'', \<lparr>eShape = [0, 2, 0, 2, 0, 0], aShape = [-1, 0, 2, 0, 3, 0]\<rparr>),
     (''m7b5'', \<lparr>eShape = [0, -1, 0, 0, -1, -1], aShape = [-1, 0, 1, 0, 1, -1]\<rparr>),
     (''dim7'', \<lparr>eShape = [0, 1, 0, 0, -1, -1], aShape = [-1, 0, 1, 2, 1, -1]\<rparr>)]"

definition INVERSION_SHAPES :: "(string \<times> int list) list" where
  "INVERSION_SHAPES =
    [(''Maj_3_E'', [0, -1, -2, 0, 1, -1]),
     (''Maj_3_A'', [-1, 0, -2, -2, -2, 1]),
     (''Min_3_E'', [0, -1, -1, 1, 2, -1]),
     (''Min_3_A'', [-1, 0, -1, -1, -2, -1]),
     (''Maj_5_E'', [0, 0, 2, 2, 2, 0])]"


subsection \<open>Shapes and the classifier\<close>

text \<open>\<^verbatim>\<open>createVoicingFromShape\<close>: the callback of \<^verbatim>\<open>shape.map\<close> reads
  \<^verbatim>\<open>shape[0]\<close>, which exists whenever the callback runs.\<close>

definition createVoicingFromShape :: "int list \<Rightarrow> int \<Rightarrow> int list" where
  "createVoicingFromShape shape rootFret =
     (case shape of
        [] \<Rightarrow> []
      | s0 # _ \<Rightarrow>
          map (\<lambda>f. if f = -1 then -1
                   else (let finalFret = f + rootFret
                         in if finalFret > 12 \<and> s0 \<noteq> -1 \<and> s0 + rootFret > 12
                            then finalFret - 12 else finalFret)) shape)"

definition createInversionVoicing :: "int list \<Rightarrow> int \<Rightarrow> int list option" where
  "createInversionVoicing shape bassFret =
     (let frets = map (\<lambda>f. if f = -1 then -1 else f + bassFret) shape
      in if list_ex (\<lambda>f. f < 0 \<and> f \<noteq> -1) frets then None else Some frets)"

definition getQualityFromIntervals :: "int \<Rightarrow> int \<Rightarrow> int option \<Rightarrow> string" where
  "getQualityFromIntervals third fifth seventh =
     (case (case seventh of
              None \<Rightarrow> None
            | Some sv \<Rightarrow>
                if third = 4 \<and> fifth = 7 \<and> sv = 11 then Some ''maj7''
                else if third = 4 \<and> fifth = 7 \<and> sv = 10 then Some ''7''
                else if third = 3 \<and> fifth = 7 \<and> sv = 10 then Some ''m7''
                else if third = 3 \<and> fifth = 7 \<and> sv = 11 then Some ''mMaj7''
                else if third = 3 \<and> fifth = 6 \<and> sv = 10 then Some ''m7b5''
                else if third = 3 \<and> fifth = 6 \<and> sv = 9 then Some ''dim7''
                else None) of
        Some q \<Rightarrow> q
      | None \<Rightarrow>
          if third = 4 \<and> fifth = 7 then ''''
          else if third = 3 \<and> fifth = 7 then ''m''
          else if third = 3 \<and> fifth = 6 then ''dim''
          else '''')"

subsection \<open>Reading a dictionary by a computed key\<close>

text \<open>
  \<^verbatim>\<open>CHORD_SHAPES[key]\<close> on an object literal finds the literal's own entries and,
  for the twelve names below, a property inherited from \<^verbatim>\<open>Object.prototype\<close>: a
  truthy value that is no shape, so that using it as one throws. No quality tag of the
  engine is one of these names.
\<close>

definition OBJECT_PROTOTYPE_KEYS :: "string list" where
  "OBJECT_PROTOTYPE_KEYS =
    [''constructor'', ''hasOwnProperty'', ''isPrototypeOf'', ''propertyIsEnumerable'',
     ''toLocaleString'', ''toString'', ''valueOf'', ''__proto__'', ''__defineGetter__'',
     ''__defineSetter__'', ''__lookupGetter__'', ''__lookupSetter__'']"

datatype 'a property = Own 'a | Inherited | Absent

definition property :: "(string \<times> 'a) list \<Rightarrow> string \<Rightarrow> 'a property" where
  "property obj k =
     (case map_of obj k of
        Some v \<Rightarrow> Own v
      | None \<Rightarrow> if k \<in> set OBJECT_PROTOTYPE_KEYS then Inherited else Absent)"

subsection \<open>Chords and voicings\<close>

datatype func = Home | Adventure | Tension | Stranger | Spice

datatype category = Team | Variation | Wildcard

record Voicing =
  name :: string
  frets :: "int list"
  baseFret :: jsnum

record Chord =
  chord_id :: string
  root :: string
  quality :: string
  chord_name :: string
  roman :: string
  func :: func
  chord_notes :: "string list"
  voicings :: "Voicing list"
  activeVoicingIdx :: jsnum
  scaleDegree :: int
  isDiatonic :: bool
  category :: category


text \<open>The base fret of a voicing, \<^verbatim>\<open>Math.min(...frets.filter(fr => fr !== -1))\<close>.\<close>

definition minFret :: "int list \<Rightarrow> jsnum" where
  "minFret fs = Math_min (filter (\<lambda>fr. fr \<noteq> -1) fs)"

subsection \<open>\<^verbatim>\<open>buildChord\<close>\<close>

text \<open>The template selection of \<^verbatim>\<open>buildChord\<close> (lines 1143 to 1150).\<close>

definition shapeKeyOf :: "string \<Rightarrow> string" where
  "shapeKeyOf q =
     (if property CHORD_SHAPES q = Absent then
        (if q = ''mMaj7'' then ''m7''
         else if startsWith q ''m'' then ''m''
         else if startsWith q ''dim'' then ''dim''
         else '''')
      else q)"

definition shapeTemplateOf :: "string \<Rightarrow> shape property" where
  "shapeTemplateOf q =
     (case property CHORD_SHAPES (shapeKeyOf q) of
        Absent \<Rightarrow> property CHORD_SHAPES ''''
      | p \<Rightarrow> p)"

text \<open>The two shape voicings (lines 1152 to 1172).\<close>

definition eShapeVoicing :: "shape \<Rightarrow> string \<Rightarrow> Voicing" where
  "eShapeVoicing shapeTemplate n =
     (let eStringIdx = indexOf ALL_NOTES ''E'';
          eShapeRootFret = jsrem (indexOf ALL_NOTES n - eStringIdx + 12) 12;
          eFrets = createVoicingFromShape (eShape shapeTemplate) eShapeRootFret;
          isEBarre = (list_ex (\<lambda>fr. fr > 0) eFrets \<and> eShapeRootFret > 0)
      in \<lparr>name = (if \<not> isEBarre then ''Open / Bottom''
                  else ''Root on E (Fret '' @
                       toString (if eShapeRootFret = 0 then 12 else eShapeRootFret) @ '')''),
          frets = eFrets,
          baseFret = or_else (minFret eFrets) 1\<rparr>)"

definition aShapeVoicing :: "shape \<Rightarrow> string \<Rightarrow> Voicing" where
  "aShapeVoicing shapeTemplate n =
     (let aStringIdx = indexOf ALL_NOTES ''A'';
          aShapeRootFret = jsrem (indexOf ALL_NOTES n - aStringIdx + 12) 12;
          aFrets = createVoicingFromShape (aShape shapeTemplate) aShapeRootFret;
          isABarre = (list_ex (\<lambda>fr. fr > 0) aFrets \<and> aShapeRootFret > 0)
      in \<lparr>name = (if \<not> isABarre then ''Open A-Style''
                  else ''Root on A (Fret '' @
                       toString (if aShapeRootFret = 0 then 12 else aShapeRootFret) @ '')''),
          frets = aFrets,
          baseFret = or_else (minFret aFrets) 1\<rparr>)"

text \<open>An inversion voicing is pushed when its shape fits (lines 1182 to 1189, and the
  two blocks like it): bass note \<open>bassNote\<close> on the open string \<open>open\<close>.\<close>

definition inversionVoicing :: "string \<Rightarrow> string \<Rightarrow> string \<Rightarrow> string \<Rightarrow> Voicing list" where
  "inversionVoicing shapeName bassNote open label =
     (let bassFret = jsrem (indexOf ALL_NOTES bassNote - indexOf ALL_NOTES open + 12) 12
      in case createInversionVoicing (the (map_of INVERSION_SHAPES shapeName)) bassFret of
           None \<Rightarrow> []
         | Some invFrets \<Rightarrow>
             [\<lparr>name = ''/'' @ bassNote @ label,
               frets = invFrets,
               baseFret = or_else (minFret invFrets) 1\<rparr>])"

text \<open>The inversions (lines 1174 to 1216).\<close>

definition inversions :: "string \<Rightarrow> string \<Rightarrow> string \<Rightarrow> Voicing list" where
  "inversions q thirdNote fifthNote =
     (if q = '''' \<or> q = ''m'' then
        (let isMinor = (q = ''m'')
         in inversionVoicing (if isMinor then ''Min_3_E'' else ''Maj_3_E'') thirdNote ''E''
              '' (Bass on E)'' @
            inversionVoicing (if isMinor then ''Min_3_A'' else ''Maj_3_A'') thirdNote ''A''
              '' (Bass on A)'')
      else []) @
     (if q = '''' then inversionVoicing ''Maj_5_E'' fifthNote ''E'' '' (Bass on E)'' else [])"

text \<open>
  \<^verbatim>\<open>buildChord\<close> is a closure of the loop body of \<^verbatim>\<open>generateKeyChords\<close>: it
  reads the loop's \<^verbatim>\<open>thirdNote\<close>, \<^verbatim>\<open>fifthNote\<close> and index \<^verbatim>\<open>i\<close>, which are
  its first three arguments here. It throws when the template it selected is no shape.
\<close>

definition buildChord ::
  "string \<Rightarrow> string \<Rightarrow> int \<Rightarrow> string \<Rightarrow> string \<Rightarrow> string \<Rightarrow> func \<Rightarrow> category \<Rightarrow> string
     \<Rightarrow> error + Chord" where
  "buildChord thirdNote fifthNote i q n r f cat customId =
     (case shapeTemplateOf q of
        Own shapeTemplate \<Rightarrow>
          Inr \<lparr>chord_id = n @ q @ ''-'' @ toString i @ ''-'' @ customId,
               root = n,
               quality = q,
               chord_name = n @ q,
               roman = r,
               func = f,
               chord_notes = [n, thirdNote, fifthNote],
               voicings = [eShapeVoicing shapeTemplate n, aShapeVoicing shapeTemplate n] @
                          inversions q thirdNote fifthNote,
               activeVoicingIdx = Num 0,
               scaleDegree = i + 1,
               isDiatonic = True,
               category = cat\<rparr>
      | _ \<Rightarrow> Inl TypeError)"

subsection \<open>\<^verbatim>\<open>generateKeyChords\<close>\<close>

text \<open>
  The scale tones (lines 1086 to 1088; the \<^verbatim>\<open>App\<close> component computes the same list
  at lines 1515 to 1518). A scale name that is no own key of \<^verbatim>\<open>SCALE_PATTERNS\<close> gives
  a value without a \<^verbatim>\<open>map\<close> method, and the call \<^verbatim>\<open>pattern.map\<close> throws.
\<close>

definition scaleNotes :: "string \<Rightarrow> string \<Rightarrow> error + string list" where
  "scaleNotes keyRoot scaleType =
     (let rootIdx = indexOf ALL_NOTES keyRoot
      in case property SCALE_PATTERNS scaleType of
           Own pattern \<Rightarrow>
             Inr (map (\<lambda>interval. at ALL_NOTES (jsrem (rootIdx + interval) 12)) pattern)
         | _ \<Rightarrow> Inl TypeError)"

text \<open>
  The body of the loop over the scale tones, for the tone at index \<open>i\<close> of the scale
  \<open>scale\<close>. Its parts, in the order of the source: the blues override (line 1104), the
  candidate third, fifth and seventh (lines 1096 to 1108), the interval of a note above the
  chord root (lines 1111 to 1117), the quality (line 1119), the function (lines 1122 to
  1131) and the Roman numeral (lines 1133 to 1138).
\<close>

definition isBluesDominant :: "string \<Rightarrow> int \<Rightarrow> bool" where
  "isBluesDominant style i = (style = ''Blues'' \<and> (i = 0 \<or> i = 3 \<or> i = 4))"

definition thirdNote :: "string \<Rightarrow> string list \<Rightarrow> int \<Rightarrow> string" where
  "thirdNote style scale i =
     (if isBluesDominant style i
      then at ALL_NOTES (jsrem (indexOf ALL_NOTES (at scale i) + 4) 12)
      else at scale (jsrem (i + 2) 7))"

definition fifthNote :: "string list \<Rightarrow> int \<Rightarrow> string" where
  "fifthNote scale i = at scale (jsrem (i + 4) 7)"

definition seventhNote :: "string \<Rightarrow> string list \<Rightarrow> int \<Rightarrow> string" where
  "seventhNote style scale i =
     (if isBluesDominant style i
      then at ALL_NOTES (jsrem (indexOf ALL_NOTES (at scale i) + 10) 12)
      else at scale (jsrem (i + 6) 7))"

definition useSevenths :: "string \<Rightarrow> int \<Rightarrow> bool" where
  "useSevenths style i =
     (if isBluesDominant style i then True else (style = ''Jazz'' \<or> style = ''Blues''))"

definition intervalAbove :: "string \<Rightarrow> string \<Rightarrow> int" where
  "intervalAbove chordRoot other =
     jsrem (indexOf ALL_NOTES other - indexOf ALL_NOTES chordRoot + 12) 12"

definition qualityAt :: "string \<Rightarrow> string list \<Rightarrow> int \<Rightarrow> string" where
  "qualityAt style scale i =
     getQualityFromIntervals
       (intervalAbove (at scale i) (thirdNote style scale i))
       (intervalAbove (at scale i) (fifthNote scale i))
       (if useSevenths style i
        then Some (intervalAbove (at scale i) (seventhNote style scale i)) else None)"

definition functionAt :: "string \<Rightarrow> string \<Rightarrow> int \<Rightarrow> func" where
  "functionAt scaleType style i =
     (let f0 = Adventure;
          f1 = (if i = 0 then Home else f0);
          f2 = (if i = 4 then Tension else f1);
          f3 = (if i = 6 then Tension else f2);
          f4 = (if i = 2 \<or> i = 5 then Home else f3);
          f5 = (if i = 1 \<or> i = 3 then Adventure else f4)
      in if style = ''Blues'' \<or> scaleType = ''Mixolydian'' then
           (let g1 = (if i = 0 then Home else f5);
                g2 = (if i = 3 then Adventure else g1)
            in if i = 4 then Tension else g2)
         else f5)"

definition romanAt :: "string \<Rightarrow> string list \<Rightarrow> int \<Rightarrow> string" where
  "romanAt style scale i =
     (let q = qualityAt style scale i;
          r0 = at ROMAN_NUMERALS i;
          r1 = (if intervalAbove (at scale i) (thirdNote style scale i) = 4
                then toUpperCase r0 else r0);
          r2 = (if str_includes q CHR ''7'' then r1 @ ''7'' else r1);
          r3 = (if q = ''maj7'' then replace r2 CHR ''7'' ''Maj7'' else r2);
          r4 = (if q = ''m7b5'' then r3 @ [CHR 0xF8] else r3)
      in if q = ''dim7'' then r4 @ [CHR 0xB0, CHR ''7''] else r4)"

text \<open>The chords the loop body pushes, in order; each is the result of a call of
  \<^verbatim>\<open>buildChord\<close>, which may throw (lines 1237 to 1256).\<close>

definition degreeChords :: "string \<Rightarrow> string \<Rightarrow> string list \<Rightarrow> int \<Rightarrow> (error + Chord) list" where
  "degreeChords scaleType style scale i =
     (let n = at scale i;
          t = thirdNote style scale i;
          fi = fifthNote scale i;
          q = qualityAt style scale i;
          f = functionAt scaleType style i;
          r = romanAt style scale i
      in buildChord t fi i q n r f Team '''' #
         (if q = '''' \<or> q = ''7'' then
            [buildChord t fi i ''sus4'' n (r @ ''sus4'') Spice Variation ''sus4'',
             buildChord t fi i ''sus2'' n (r @ ''sus2'') Spice Variation ''sus2''] @
            (if style = ''Pop''
             then [buildChord t fi i ''add9'' n (r @ ''add9'') Spice Variation ''add9'']
             else []) @
            (if q = ''''
             then [buildChord t fi i ''6'' n (r @ ''6'') Spice Variation ''6'']
             else [])
          else []) @
         (if q = ''7''
          then [buildChord t fi i ''7sus4'' n (r @ ''7sus'') Tension Variation ''7sus4'']
          else []))"

text \<open>\<^verbatim>\<open>addWildcard\<close> (lines 1260 to 1285), a closure over \<^verbatim>\<open>rootIdx\<close>.\<close>

definition addWildcard :: "int \<Rightarrow> int \<Rightarrow> string \<Rightarrow> string \<Rightarrow> string \<Rightarrow> error + Chord" where
  "addWildcard rootIdx degreeOffset q r label =
     (let wIdx = jsrem (rootIdx + degreeOffset) 12;
          wNote = at ALL_NOTES wIdx
      in case (case property CHORD_SHAPES q of
                 Absent \<Rightarrow> property CHORD_SHAPES ''''
               | p \<Rightarrow> p) of
           Own template \<Rightarrow>
             (let eStringIdx = indexOf ALL_NOTES ''E'';
                  wRootFret = jsrem (wIdx - eStringIdx + 12) 12;
                  wFrets = createVoicingFromShape (eShape template) wRootFret
              in Inr \<lparr>chord_id = ''wild-'' @ wNote @ q,
                      root = wNote,
                      quality = q,
                      chord_name = wNote @ q,
                      roman = r,
                      func = Stranger,
                      chord_notes = [wNote, ''?'', ''?''],
                      voicings = [\<lparr>name = label, frets = wFrets, baseFret = minFret wFrets\<rparr>],
                      activeVoicingIdx = Num 0,
                      scaleDegree = 0,
                      isDiatonic = False,
                      category = Wildcard\<rparr>)
         | _ \<Rightarrow> Inl TypeError)"

definition wildcards :: "int \<Rightarrow> string \<Rightarrow> (error + Chord) list" where
  "wildcards rootIdx scaleType =
     (if scaleType = ''Major'' \<or> scaleType = ''Mixolydian'' then
        [addWildcard rootIdx 10 '''' ''bVII'' ''Mixolydian Borrow'',
         addWildcard rootIdx 3 '''' ''bIII'' ''Chromatic Mediant'',
         addWildcard rootIdx 5 ''m'' ''iv'' ''Minor Plagal'',
         addWildcard rootIdx 8 '''' ''bVI'' ''Epic Lift'']
      else
        [addWildcard rootIdx 7 '''' ''V'' ''Major V (Harmonic)'',
         addWildcard rootIdx 5 '''' ''IV'' ''Dorian IV'',
         addWildcard rootIdx 1 '''' ''bII'' ''Neapolitan''])"

text \<open>The chords are pushed one by one; the first call that throws ends the whole
  function, and no list is returned.\<close>

fun pushed :: "(error + 'a) list \<Rightarrow> error + 'a list" where
  "pushed [] = Inr []"
| "pushed (Inl e # rs) = Inl e"
| "pushed (Inr x # rs) = (case pushed rs of Inl e \<Rightarrow> Inl e | Inr xs \<Rightarrow> Inr (x # xs))"

definition generateKeyChords :: "string \<Rightarrow> string \<Rightarrow> string \<Rightarrow> error + Chord list" where
  "generateKeyChords keyRoot scaleType style =
     (case scaleNotes keyRoot scaleType of
        Inl e \<Rightarrow> Inl e
      | Inr scale \<Rightarrow>
          pushed (concat (map (\<lambda>i. degreeChords scaleType style scale (int i))
                            [0..<length scale]) @
                  wildcards (indexOf ALL_NOTES keyRoot) scaleType))"

section \<open>The progression of the \<^verbatim>\<open>App\<close> component\<close>

text \<open>
  Chords placed in the progression are objects: the progression array and
  \<^verbatim>\<open>selectedChord\<close> hold references to them, so the state has a store from
  references to chord values. An array is a list of references; the arrays the handlers
  build are new ones, so a list value stands for each. Playing the sound changes nothing
  of this state and is left out.
\<close>

type_synonym ref = nat

record App =
  heap :: "ref \<Rightarrow> Chord"
  nextRef :: ref
  progression :: "ref list"
  selectedChord :: "ref option"

fun findIndex :: "('a \<Rightarrow> bool) \<Rightarrow> 'a list \<Rightarrow> int" where
  "findIndex p [] = -1"
| "findIndex p (x # xs) =
     (if p x then 0 else (let r = findIndex p xs in if r = -1 then -1 else r + 1))"

text \<open>\<^verbatim>\<open>addChord\<close> (lines 1520 to 1526); \<open>now\<close> is the value of \<^verbatim>\<open>Date.now()\<close>.\<close>

definition addChord :: "Chord \<Rightarrow> int \<Rightarrow> App \<Rightarrow> App" where
  "addChord chordTemplate now s =
     (let newChord = chordTemplate\<lparr>chord_id := chord_id chordTemplate @ ''-'' @ toString now\<rparr>;
          r = nextRef s
      in s\<lparr>heap := (heap s)(r := newChord),
           nextRef := Suc r,
           progression := progression s @ [r],
           selectedChord := Some r\<rparr>)"

text \<open>\<^verbatim>\<open>changeVoicing\<close> (lines 1544 to 1558). The assignment
  \<^verbatim>\<open>newProg[idx].activeVoicingIdx = newVoicingIdx\<close> writes to the object the copied
  array refers to. A remainder by zero is \<^verbatim>\<open>NaN\<close>.\<close>

definition changeVoicing :: "int \<Rightarrow> App \<Rightarrow> App" where
  "changeVoicing delta s =
     (case selectedChord s of
        None \<Rightarrow> s
      | Some sel \<Rightarrow>
          (let idx = findIndex (\<lambda>c. chord_id (heap s c) = chord_id (heap s sel)) (progression s)
           in if idx = -1 then s
              else
                (let newProg = progression s;
                     r = newProg ! nat idx;
                     currentIdx = activeVoicingIdx (heap s r);
                     len = int (length (voicings (heap s r)));
                     newVoicingIdx =
                       (case currentIdx of
                          Num k \<Rightarrow> if len = 0 then NaN else Num (jsrem (k + delta + len) len)
                        | _ \<Rightarrow> NaN)
                 in s\<lparr>heap := (heap s)(r := (heap s r)\<lparr>activeVoicingIdx := newVoicingIdx\<rparr>),
                      progression := newProg,
                      selectedChord := Some r\<rparr>)))"

text \<open>The three groups the component shows (lines 1511 to 1513).\<close>

definition teamChords :: "Chord list \<Rightarrow> Chord list" where
  "teamChords allChords = filter (\<lambda>c. category c = Team) allChords"

definition variationChords :: "Chord list \<Rightarrow> Chord list" where
  "variationChords allChords = filter (\<lambda>c. category c = Variation) allChords"

definition wildcardChords :: "Chord list \<Rightarrow> Chord list" where
  "wildcardChords allChords = filter (\<lambda>c. category c = Wildcard) allChords"

section \<open>Properties of chords\<close>






section \<open>The classifier\<close>

lemma gq_rows:
  "getQualityFromIntervals 4 7 (Some 11) = ''maj7''"
  "getQualityFromIntervals 4 7 (Some 10) = ''7''"
  "getQualityFromIntervals 3 7 (Some 10) = ''m7''"
  "getQualityFromIntervals 3 7 (Some 11) = ''mMaj7''"
  "getQualityFromIntervals 3 6 (Some 10) = ''m7b5''"
  "getQualityFromIntervals 3 6 (Some 9) = ''dim7''"
  "getQualityFromIntervals 4 7 None = ''''"
  "getQualityFromIntervals 3 7 None = ''m''"
  "getQualityFromIntervals 3 6 None = ''dim''"
  by (simp_all add: getQualityFromIntervals_def)

lemma gq_unmatched_seventh:
  "(t, f, s) \<notin> {(4, 7, 11), (4, 7, 10), (3, 7, 10), (3, 7, 11), (3, 6, 10), (3, 6, 9)}
     \<Longrightarrow> getQualityFromIntervals t f (Some s) = getQualityFromIntervals t f None"
  by (auto simp add: getQualityFromIntervals_def)

lemma gq_unmatched_triad:
  "(t, f) \<notin> {(4, 7), (3, 7), (3, 6)} \<Longrightarrow> getQualityFromIntervals t f None = ''''"
  by (auto simp add: getQualityFromIntervals_def)

lemma gq_range:
  "getQualityFromIntervals t f s \<in>
     {''maj7'', ''7'', ''m7'', ''mMaj7'', ''m7b5'', ''dim7'', '''', ''m'', ''dim''}"
  by (auto simp add: getQualityFromIntervals_def split: option.splits)

text \<open>
  Claim C2, as the code has it. The nine rows of the decision table give the nine tags.
  Outside the table there is no tag of its own: a seventh that completes none of the six
  seventh rows is ignored, the result being that of the triad; and a third and fifth
  that are none of the three triad rows give the empty tag, which is the tag of the
  major triad.
\<close>

theorem C2_classifier_table:
  "getQualityFromIntervals 4 7 (Some 11) = ''maj7'' \<and>
   getQualityFromIntervals 4 7 (Some 10) = ''7'' \<and>
   getQualityFromIntervals 3 7 (Some 10) = ''m7'' \<and>
   getQualityFromIntervals 3 7 (Some 11) = ''mMaj7'' \<and>
   getQualityFromIntervals 3 6 (Some 10) = ''m7b5'' \<and>
   getQualityFromIntervals 3 6 (Some 9) = ''dim7'' \<and>
   getQualityFromIntervals 4 7 None = '''' \<and>
   getQualityFromIntervals 3 7 None = ''m'' \<and>
   getQualityFromIntervals 3 6 None = ''dim'' \<and>
   ((t, f, s) \<notin> {(4, 7, 11), (4, 7, 10), (3, 7, 10), (3, 7, 11), (3, 6, 10), (3, 6, 9)}
      \<longrightarrow> getQualityFromIntervals t f (Some s) = getQualityFromIntervals t f None) \<and>
   ((t, f) \<notin> {(4, 7), (3, 7), (3, 6)} \<longrightarrow> getQualityFromIntervals t f None = '''')"
  using gq_unmatched_seventh[of t f s] gq_unmatched_triad[of t f]
  by (simp only: gq_rows) blast

theorem C2_classifier_table_witness:
  "getQualityFromIntervals 4 8 (Some 11) = getQualityFromIntervals 4 8 None \<and>
   getQualityFromIntervals 4 8 None = ''''"
  using C2_classifier_table[of 4 8 11] by simp

text \<open>
  Claim C2 as stated fails: an augmented triad (major third, fifth of 8 semitones) is
  outside the table, and its tag is the very tag of the major triad, not a tag distinct
  from it.
\<close>

theorem C2_no_unresolved_tag:
  "getQualityFromIntervals 4 8 None = getQualityFromIntervals 4 7 None"
  by (simp add: getQualityFromIntervals_def)

section \<open>Shifting a shape\<close>

lemma createVoicingFromShape_plain:
  assumes "shp \<noteq> [] \<longrightarrow> hd shp = -1 \<or> hd shp + rootFret \<le> 12"
  shows "createVoicingFromShape shp rootFret = map (\<lambda>f. if f = -1 then -1 else f + rootFret) shp"
  using assms by (cases shp) (auto simp add: createVoicingFromShape_def Let_def)

lemma shapes_cases:
  assumes "(k, sh) \<in> set CHORD_SHAPES" "shp = eShape sh \<or> shp = aShape sh"
  shows "shp \<noteq> [] \<and> (hd shp = 0 \<or> hd shp = -1) \<and> (\<forall>f \<in> set shp. -1 \<le> f \<and> f \<le> 4)"
  using assms unfolding CHORD_SHAPES_def by auto

text \<open>
  Claim C10. For every template of the shape table and every root fret from 0 to 11,
  shifting is plain addition on the strings that are not muted: the first entry of the
  template is 0 (every E shape) or -1 (every A shape), so the branch that folds the shape
  down by 12 is never taken; and no fret of the shifted shape is above 15.
\<close>

theorem C10_shift_is_addition:
  assumes "(k, sh) \<in> set CHORD_SHAPES" and "0 \<le> rootFret" and "rootFret \<le> 11"
  shows "hd (eShape sh) = 0 \<and> hd (aShape sh) = -1 \<and>
         createVoicingFromShape (eShape sh) rootFret =
           map (\<lambda>f. if f = -1 then -1 else f + rootFret) (eShape sh) \<and>
         createVoicingFromShape (aShape sh) rootFret =
           map (\<lambda>f. if f = -1 then -1 else f + rootFret) (aShape sh) \<and>
         (\<forall>fr \<in> set (createVoicingFromShape (eShape sh) rootFret). fr \<le> 15) \<and>
         (\<forall>fr \<in> set (createVoicingFromShape (aShape sh) rootFret). fr \<le> 15)"
proof -
  have hd: "hd (eShape sh) = 0" "hd (aShape sh) = -1"
    using assms(1) unfolding CHORD_SHAPES_def by auto
  have e: "eShape sh \<noteq> [] \<and> (\<forall>f \<in> set (eShape sh). -1 \<le> f \<and> f \<le> 4)"
    using shapes_cases[OF assms(1), of "eShape sh"] by simp
  have a: "aShape sh \<noteq> [] \<and> (\<forall>f \<in> set (aShape sh). -1 \<le> f \<and> f \<le> 4)"
    using shapes_cases[OF assms(1), of "aShape sh"] by simp
  have pe: "createVoicingFromShape (eShape sh) rootFret =
              map (\<lambda>f. if f = -1 then -1 else f + rootFret) (eShape sh)"
    using hd(1) assms(3) by (intro createVoicingFromShape_plain) simp
  have pa: "createVoicingFromShape (aShape sh) rootFret =
              map (\<lambda>f. if f = -1 then -1 else f + rootFret) (aShape sh)"
    using hd(2) by (intro createVoicingFromShape_plain) simp
  have be: "\<forall>fr \<in> set (createVoicingFromShape (eShape sh) rootFret). fr \<le> 15"
    unfolding pe using e assms(2,3) by fastforce
  have ba: "\<forall>fr \<in> set (createVoicingFromShape (aShape sh) rootFret). fr \<le> 15"
    unfolding pa using a assms(2,3) by fastforce
  from hd pe pa be ba show ?thesis by simp
qed

theorem C10_shift_is_addition_witness:
  "createVoicingFromShape [0, 2, 4, 4, 0, 0] 11 = [11, 13, 15, 15, 11, 11] \<and>
   createVoicingFromShape [-1, 0, 2, 2, 0, 0] 11 = [-1, 11, 13, 13, 11, 11]"
proof -
  have "(''sus2'', \<lparr>eShape = [0, 2, 4, 4, 0, 0], aShape = [-1, 0, 2, 2, 0, 0]\<rparr>)
          \<in> set CHORD_SHAPES"
    by (simp add: CHORD_SHAPES_def)
  from C10_shift_is_addition[OF this, of 11] show ?thesis by simp
qed

section \<open>Facts about the host language and the tables\<close>

lemma jsrem_nonneg: "0 \<le> a \<Longrightarrow> 0 < b \<Longrightarrow> jsrem a b = a mod b"
  by (cases "a = 0") (simp_all add: jsrem_def sgn_if)

lemma indexOf_ge: "- 1 \<le> indexOf xs x"
  by (induction xs) (auto simp add: Let_def)

lemma indexOf_notin: "indexOf xs x = - 1 \<longleftrightarrow> x \<notin> set xs"
proof (induction xs)
  case Nil
  show ?case by simp
next
  case (Cons y ys)
  have "- 1 \<le> indexOf ys x" by (rule indexOf_ge)
  with Cons show ?case by (auto simp add: Let_def)
qed

lemma indexOf_in:
  "x \<in> set xs \<Longrightarrow>
     0 \<le> indexOf xs x \<and> indexOf xs x < int (length xs) \<and> xs ! nat (indexOf xs x) = x"
proof (induction xs)
  case Nil
  then show ?case by simp
next
  case (Cons y ys)
  show ?case
  proof (cases "y = x")
    case True
    then show ?thesis by simp
  next
    case False
    with Cons.prems have "x \<in> set ys" by simp
    from Cons.IH[OF this] False show ?thesis
      by (simp add: Let_def nat_add_distrib)
  qed
qed

lemma indexOf_nth: "distinct xs \<Longrightarrow> i < length xs \<Longrightarrow> indexOf xs (xs ! i) = int i"
proof (induction xs arbitrary: i)
  case Nil
  then show ?case by simp
next
  case (Cons y ys)
  show ?case
  proof (cases i)
    case 0
    then show ?thesis by simp
  next
    case (Suc j)
    with Cons.prems have j: "j < length ys" "distinct ys" "y \<notin> set ys" by simp_all
    then have "ys ! j \<noteq> y" using nth_mem by metis
    with Cons.IH[OF j(2) j(1)] Suc show ?thesis by (simp add: Let_def)
  qed
qed


lemma length_ALL_NOTES: "length ALL_NOTES = 12"
  by (simp add: ALL_NOTES_def)

lemma distinct_ALL_NOTES: "distinct ALL_NOTES"
  by (simp add: ALL_NOTES_def)

lemma at_nth: "0 \<le> k \<Longrightarrow> k < 12 \<Longrightarrow> at ALL_NOTES k = ALL_NOTES ! nat k"
  by (simp add: at_def length_ALL_NOTES)

lemma indexOf_at: "0 \<le> k \<Longrightarrow> k < 12 \<Longrightarrow> indexOf ALL_NOTES (at ALL_NOTES k) = k"
  using indexOf_nth[OF distinct_ALL_NOTES, of "nat k"]
  by (simp add: at_nth length_ALL_NOTES)

lemma note_index:
  "n \<in> set ALL_NOTES \<Longrightarrow>
     0 \<le> indexOf ALL_NOTES n \<and> indexOf ALL_NOTES n < 12 \<and> at ALL_NOTES (indexOf ALL_NOTES n) = n"
  using indexOf_in[of n ALL_NOTES] by (simp add: at_def length_ALL_NOTES)

lemma at_in_notes: "0 \<le> k \<Longrightarrow> k < 12 \<Longrightarrow> at ALL_NOTES k \<in> set ALL_NOTES"
  by (simp add: at_nth length_ALL_NOTES)

lemma at_inj:
  assumes "0 \<le> a" "a < 12" "0 \<le> b" "b < 12" "at ALL_NOTES a = at ALL_NOTES b"
  shows "a = b"
proof -
  have "indexOf ALL_NOTES (at ALL_NOTES a) = indexOf ALL_NOTES (at ALL_NOTES b)"
    by (simp only: assms(5))
  then show ?thesis by (simp only: indexOf_at[OF assms(1,2)] indexOf_at[OF assms(3,4)])
qed

lemma property_own: "property obj k = Own v \<longleftrightarrow> map_of obj k = Some v"
  by (simp add: property_def split: option.splits)

lemma pattern_cases:
  "(st, pattern) \<in> set SCALE_PATTERNS \<Longrightarrow>
     length pattern = 7 \<and> sorted_wrt (<) pattern \<and> (\<forall>iv \<in> set pattern. 0 \<le> iv \<and> iv \<le> 11)"
  by (auto simp add: SCALE_PATTERNS_def)

lemma registered:
  "property SCALE_PATTERNS st = Own pattern \<longleftrightarrow> (st, pattern) \<in> set SCALE_PATTERNS"
proof -
  have "distinct (map fst SCALE_PATTERNS)" by (simp add: SCALE_PATTERNS_def)
  then show ?thesis by (simp add: property_own)
qed

lemma transpose_inj:
  assumes "0 \<le> k" "k < 12" "0 \<le> a" "a \<le> 11" "0 \<le> b" "b \<le> 11"
    and "at ALL_NOTES ((k + a) mod 12) = at ALL_NOTES ((k + b) mod 12)"
  shows "a = (b::int)"
proof -
  have "(k + a) mod 12 = (k + b) mod 12"
    by (rule at_inj[OF _ _ _ _ assms(7)]) simp_all
  then have "12 dvd (k + a) - (k + b)" by (simp only: mod_eq_dvd_iff)
  then have d: "12 dvd a - b" by simp
  have "- 11 \<le> a - b" "a - b \<le> 11" using assms(3-6) by simp_all
  with d have "a - b = 0" by presburger
  then show ?thesis by simp
qed

lemma scaleNotes_registered:
  assumes "(st, pattern) \<in> set SCALE_PATTERNS"
  shows "scaleNotes keyRoot st =
           Inr (map (\<lambda>iv. at ALL_NOTES (jsrem (indexOf ALL_NOTES keyRoot + iv) 12)) pattern)"
  using assms by (simp add: scaleNotes_def registered[symmetric])

lemma scale_of_note:
  assumes "keyRoot \<in> set ALL_NOTES" and "(st, pattern) \<in> set SCALE_PATTERNS"
  shows "scaleNotes keyRoot st =
           Inr (map (\<lambda>iv. at ALL_NOTES ((indexOf ALL_NOTES keyRoot + iv) mod 12)) pattern)"
proof -
  have "0 \<le> indexOf ALL_NOTES keyRoot" using note_index[OF assms(1)] by simp
  moreover have "\<forall>iv \<in> set pattern. 0 \<le> iv" using pattern_cases[OF assms(2)] by simp
  ultimately have "map (\<lambda>iv. at ALL_NOTES (jsrem (indexOf ALL_NOTES keyRoot + iv) 12)) pattern
      = map (\<lambda>iv. at ALL_NOTES ((indexOf ALL_NOTES keyRoot + iv) mod 12)) pattern"
    by (simp add: jsrem_nonneg)
  then show ?thesis using scaleNotes_registered[OF assms(2)] by simp
qed

lemma scale_tones:
  assumes "keyRoot \<in> set ALL_NOTES" and "(st, pattern) \<in> set SCALE_PATTERNS"
  shows "length ALL_NOTES = 12 \<and> distinct ALL_NOTES \<and> length SCALE_PATTERNS = 9 \<and>
         length pattern = 7 \<and> sorted_wrt (<) pattern \<and>
         (\<forall>iv \<in> set pattern. 0 \<le> iv \<and> iv \<le> 11) \<and>
         (\<exists>scale. scaleNotes keyRoot st = Inr scale \<and>
            scale = map (\<lambda>iv. at ALL_NOTES ((indexOf ALL_NOTES keyRoot + iv) mod 12)) pattern \<and>
            length scale = 7 \<and> distinct scale \<and> set scale \<subseteq> set ALL_NOTES)"
proof -
  let ?k = "indexOf ALL_NOTES keyRoot"
  let ?scale = "map (\<lambda>iv. at ALL_NOTES ((?k + iv) mod 12)) pattern"
  have k: "0 \<le> ?k" "?k < 12" using note_index[OF assms(1)] by auto
  have p: "length pattern = 7" "sorted_wrt (<) pattern"
    "\<forall>iv \<in> set pattern. 0 \<le> iv \<and> iv \<le> 11"
    using pattern_cases[OF assms(2)] by auto
  have dp: "distinct pattern" using p(2) by (simp add: strict_sorted_iff)
  have inj: "inj_on (\<lambda>iv. at ALL_NOTES ((?k + iv) mod 12)) (set pattern)"
  proof (rule inj_onI)
    fix a b assume "a \<in> set pattern" "b \<in> set pattern"
      and "at ALL_NOTES ((?k + a) mod 12) = at ALL_NOTES ((?k + b) mod 12)"
    then show "a = b" using k p(3) by (intro transpose_inj[of ?k a b]) simp_all
  qed
  have d: "distinct ?scale" using dp inj by (simp add: distinct_map)
  have sub: "set ?scale \<subseteq> set ALL_NOTES"
  proof
    fix x assume "x \<in> set ?scale"
    then obtain iv where "x = at ALL_NOTES ((?k + iv) mod 12)" by auto
    then show "x \<in> set ALL_NOTES" by (simp add: at_in_notes)
  qed
  have len: "length ?scale = 7" using p(1) by simp
  have tabs: "length SCALE_PATTERNS = 9" by (simp add: SCALE_PATTERNS_def)
  have "\<exists>scale. scaleNotes keyRoot st = Inr scale \<and> scale = ?scale \<and>
            length scale = 7 \<and> distinct scale \<and> set scale \<subseteq> set ALL_NOTES"
    using scale_of_note[OF assms] d sub len by (intro exI[of _ ?scale] conjI) simp_all
  with p tabs length_ALL_NOTES distinct_ALL_NOTES
  show ?thesis by (intro conjI) assumption+
qed



section \<open>Templates and \<^verbatim>\<open>buildChord\<close>\<close>

lemma distinct_shape_keys: "distinct (map fst CHORD_SHAPES)"
  by (simp add: CHORD_SHAPES_def)

lemma chord_shapes_own:
  "property CHORD_SHAPES k = Own sh \<longleftrightarrow> (k, sh) \<in> set CHORD_SHAPES"
  using distinct_shape_keys by (simp add: property_own)

lemma property_absent:
  "property obj k = Absent \<longleftrightarrow> map_of obj k = None \<and> k \<notin> set OBJECT_PROTOTYPE_KEYS"
  by (simp add: property_def split: option.splits)

lemma property_inherited:
  "property obj k = Inherited \<Longrightarrow> k \<in> set OBJECT_PROTOTYPE_KEYS"
  by (simp add: property_def split: option.splits if_splits)

lemma fallback_keys_own:
  "\<exists>sh. property CHORD_SHAPES ''m7'' = Own sh"
  "\<exists>sh. property CHORD_SHAPES ''m'' = Own sh"
  "\<exists>sh. property CHORD_SHAPES ''dim'' = Own sh"
  "\<exists>sh. property CHORD_SHAPES '''' = Own sh"
  by (simp_all add: property_def CHORD_SHAPES_def)

lemma shapeKeyOf_cases:
  "shapeKeyOf q = q \<and> property CHORD_SHAPES q \<noteq> Absent \<or>
   property CHORD_SHAPES q = Absent \<and> shapeKeyOf q \<in> {''m7'', ''m'', ''dim'', ''''}"
  by (simp add: shapeKeyOf_def)

lemma shapeTemplateOf_total:
  assumes "q \<notin> set OBJECT_PROTOTYPE_KEYS"
  shows "\<exists>sh. (shapeKeyOf q, sh) \<in> set CHORD_SHAPES \<and> shapeTemplateOf q = Own sh"
proof -
  have "\<exists>sh. property CHORD_SHAPES (shapeKeyOf q) = Own sh"
  proof (cases "property CHORD_SHAPES q")
    case (Own sh)
    then show ?thesis by (simp add: shapeKeyOf_def)
  next
    case Inherited
    with assms show ?thesis using property_inherited by blast
  next
    case Absent
    then have "shapeKeyOf q \<in> {''m7'', ''m'', ''dim'', ''''}"
      using shapeKeyOf_cases[of q] by simp
    then show ?thesis using fallback_keys_own by (elim insertE emptyE) simp_all
  qed
  then obtain sh where sh: "property CHORD_SHAPES (shapeKeyOf q) = Own sh" ..
  then have "shapeTemplateOf q = Own sh" by (simp add: shapeTemplateOf_def)
  with sh show ?thesis by (auto simp add: chord_shapes_own)
qed

lemma buildChord_Inr:
  assumes "q \<notin> set OBJECT_PROTOTYPE_KEYS"
  shows "\<exists>sh. (shapeKeyOf q, sh) \<in> set CHORD_SHAPES \<and>
         (\<exists>c. buildChord t fi i q n r f cat cid = Inr c \<and>
           voicings c = [eShapeVoicing sh n, aShapeVoicing sh n] @ inversions q t fi \<and>
           root c = n \<and> quality c = q \<and> chord_notes c = [n, t, fi] \<and> category c = cat \<and>
           roman c = r \<and> func c = f \<and> isDiatonic c \<and> scaleDegree c = i + 1 \<and>
           activeVoicingIdx c = Num 0)"
proof -
  from shapeTemplateOf_total[OF assms] obtain sh
    where sh: "(shapeKeyOf q, sh) \<in> set CHORD_SHAPES" "shapeTemplateOf q = Own sh" by blast
  show ?thesis
    by (intro exI[of _ sh] conjI sh(1)) (simp add: buildChord_def sh(2))
qed

lemma tags_not_inherited:
  assumes "q \<in> {''maj7'', ''7'', ''m7'', ''mMaj7'', ''m7b5'', ''dim7'', '''', ''m'', ''dim'',
                 ''sus4'', ''sus2'', ''add9'', ''6'', ''7sus4''}"
  shows "q \<notin> set OBJECT_PROTOTYPE_KEYS"
  using assms by (elim insertE emptyE) (simp_all add: OBJECT_PROTOTYPE_KEYS_def)

lemma qualityAt_not_inherited: "qualityAt sty scale i \<notin> set OBJECT_PROTOTYPE_KEYS"
proof -
  have "qualityAt sty scale i \<in>
     {''maj7'', ''7'', ''m7'', ''mMaj7'', ''m7b5'', ''dim7'', '''', ''m'', ''dim''}"
    unfolding qualityAt_def by (rule gq_range)
  then show ?thesis by (intro tags_not_inherited) blast
qed

section \<open>The chords of the catalog\<close>

lemma pushed_map_Inr: "pushed (map Inr xs) = Inr xs"
  by (induction xs) simp_all


text \<open>The loop body pushes the Core chord of the degree and then its variations; none
  of the calls throws.\<close>

lemma variation_Inr:
  assumes "q \<in> {''sus4'', ''sus2'', ''add9'', ''6'', ''7sus4''}"
  shows "\<exists>v. buildChord t fi i q n r f Variation cid = Inr v \<and>
           category v = Variation \<and> root v = n \<and> chord_notes v = [n, t, fi] \<and>
           quality v = q \<and> voicings v \<noteq> []"
proof -
  have "q \<notin> set OBJECT_PROTOTYPE_KEYS"
    using assms by (intro tags_not_inherited) blast
  from buildChord_Inr[OF this, of t fi i n r f Variation cid]
  show ?thesis by fastforce
qed

lemma degreeChords_structure:
  "\<exists>core vars.
     degreeChords st sty scale i = Inr core # map Inr vars \<and>
     buildChord (thirdNote sty scale i) (fifthNote scale i) i (qualityAt sty scale i)
       (at scale i) (romanAt sty scale i) (functionAt st sty i) Team '''' = Inr core \<and>
     (\<forall>v \<in> set vars.
        category v = Variation \<and> root v = at scale i \<and>
        chord_notes v = [at scale i, thirdNote sty scale i, fifthNote scale i] \<and>
        quality v \<in> {''sus4'', ''sus2'', ''add9'', ''6'', ''7sus4''} \<and> voicings v \<noteq> [])"
proof -
  let ?t = "thirdNote sty scale i" and ?fi = "fifthNote scale i" and ?n = "at scale i"
  let ?q = "qualityAt sty scale i" and ?r = "romanAt sty scale i"
  define P where "P = (\<lambda>v::Chord. category v = Variation \<and> root v = ?n \<and>
              chord_notes v = [?n, ?t, ?fi] \<and>
              quality v \<in> {''sus4'', ''sus2'', ''add9'', ''6'', ''7sus4''} \<and> voicings v \<noteq> [])"
  obtain core where core:
    "buildChord ?t ?fi i ?q ?n ?r (functionAt st sty i) Team '''' = Inr core"
    using buildChord_Inr[OF qualityAt_not_inherited] by blast
  obtain v1 where v1: "buildChord ?t ?fi i ''sus4'' ?n (?r @ ''sus4'') Spice Variation ''sus4'' = Inr v1"
    "P v1" unfolding P_def using variation_Inr[of "''sus4''" ?t ?fi i ?n] by fastforce
  obtain v2 where v2: "buildChord ?t ?fi i ''sus2'' ?n (?r @ ''sus2'') Spice Variation ''sus2'' = Inr v2"
    "P v2" unfolding P_def using variation_Inr[of "''sus2''" ?t ?fi i ?n] by fastforce
  obtain v3 where v3: "buildChord ?t ?fi i ''add9'' ?n (?r @ ''add9'') Spice Variation ''add9'' = Inr v3"
    "P v3" unfolding P_def using variation_Inr[of "''add9''" ?t ?fi i ?n] by fastforce
  obtain v4 where v4: "buildChord ?t ?fi i ''6'' ?n (?r @ ''6'') Spice Variation ''6'' = Inr v4"
    "P v4" unfolding P_def using variation_Inr[of "''6''" ?t ?fi i ?n] by fastforce
  obtain v5 where v5: "buildChord ?t ?fi i ''7sus4'' ?n (?r @ ''7sus'') Tension Variation ''7sus4'' = Inr v5"
    "P v5" unfolding P_def using variation_Inr[of "''7sus4''" ?t ?fi i ?n] by fastforce
  let ?vars = "(if ?q = '''' \<or> ?q = ''7'' then
                 [v1, v2] @ (if sty = ''Pop'' then [v3] else []) @ (if ?q = '''' then [v4] else [])
               else []) @ (if ?q = ''7'' then [v5] else [])"
  have eq: "degreeChords st sty scale i = Inr core # map Inr ?vars"
    unfolding degreeChords_def Let_def core v1(1) v2(1) v3(1) v4(1) v5(1) by simp
  have all: "\<forall>v \<in> set ?vars. P v"
    using v1(2) v2(2) v3(2) v4(2) v5(2) by auto
  from eq core all show ?thesis unfolding P_def by blast
qed

lemma buildChord_fields:
  assumes "buildChord t fi i q n r f cat cid = Inr c"
  shows "root c = n \<and> quality c = q \<and> chord_notes c = [n, t, fi] \<and> category c = cat \<and>
         roman c = r \<and> func c = f \<and> isDiatonic c \<and> scaleDegree c = i + 1 \<and>
         activeVoicingIdx c = Num 0 \<and> 2 \<le> length (voicings c) \<and>
         (\<exists>sh. shapeTemplateOf q = Own sh \<and>
            voicings c = [eShapeVoicing sh n, aShapeVoicing sh n] @ inversions q t fi)"
  using assms by (auto simp add: buildChord_def split: property.splits)

lemma addWildcard_Inr:
  assumes "q = '''' \<or> q = ''m''"
  shows "\<exists>c. addWildcard rootIdx off q r label = Inr c \<and>
           root c = at ALL_NOTES (jsrem (rootIdx + off) 12) \<and> quality c = q \<and> roman c = r \<and>
           func c = Stranger \<and> \<not> isDiatonic c \<and> category c = Wildcard \<and>
           chord_notes c = [at ALL_NOTES (jsrem (rootIdx + off) 12), ''?'', ''?''] \<and>
           length (voicings c) = 1 \<and> scaleDegree c = 0 \<and> activeVoicingIdx c = Num 0"
proof -
  obtain sh where "property CHORD_SHAPES q = Own sh"
    using assms fallback_keys_own(2,4) by blast
  then show ?thesis by (simp add: addWildcard_def Let_def)
qed

lemma wildcards_structure:
  "\<exists>ws. wildcards rootIdx st = map Inr ws \<and>
     map (\<lambda>c. (root c, quality c, roman c)) ws =
       (if st = ''Major'' \<or> st = ''Mixolydian'' then
          [(at ALL_NOTES (jsrem (rootIdx + 10) 12), '''', ''bVII''),
           (at ALL_NOTES (jsrem (rootIdx + 3) 12), '''', ''bIII''),
           (at ALL_NOTES (jsrem (rootIdx + 5) 12), ''m'', ''iv''),
           (at ALL_NOTES (jsrem (rootIdx + 8) 12), '''', ''bVI'')]
        else
          [(at ALL_NOTES (jsrem (rootIdx + 7) 12), '''', ''V''),
           (at ALL_NOTES (jsrem (rootIdx + 5) 12), '''', ''IV''),
           (at ALL_NOTES (jsrem (rootIdx + 1) 12), '''', ''bII'')]) \<and>
     (\<forall>c \<in> set ws. func c = Stranger \<and> \<not> isDiatonic c \<and> category c = Wildcard \<and>
        chord_notes c = [root c, ''?'', ''?''] \<and> length (voicings c) = 1)"
proof -
  define W where "W = (\<lambda>off q r (c::Chord).
     root c = at ALL_NOTES (jsrem (rootIdx + off) 12) \<and> quality c = q \<and> roman c = r \<and>
     func c = Stranger \<and> \<not> isDiatonic c \<and> category c = Wildcard \<and>
     chord_notes c = [root c, ''?'', ''?''] \<and> length (voicings c) = 1)"
  have ex: "\<exists>c. addWildcard rootIdx off q r label = Inr c \<and> W off q r c"
    if "q = '''' \<or> q = ''m''" for off q r label
    using addWildcard_Inr[OF that, of rootIdx off r label] unfolding W_def by fastforce
  obtain a1 where a1: "addWildcard rootIdx 10 '''' ''bVII'' ''Mixolydian Borrow'' = Inr a1"
    "W 10 '''' ''bVII'' a1" using ex[of "''''" 10] by blast
  obtain a2 where a2: "addWildcard rootIdx 3 '''' ''bIII'' ''Chromatic Mediant'' = Inr a2"
    "W 3 '''' ''bIII'' a2" using ex[of "''''" 3] by blast
  obtain a3 where a3: "addWildcard rootIdx 5 ''m'' ''iv'' ''Minor Plagal'' = Inr a3"
    "W 5 ''m'' ''iv'' a3" using ex[of "''m''" 5] by blast
  obtain a4 where a4: "addWildcard rootIdx 8 '''' ''bVI'' ''Epic Lift'' = Inr a4"
    "W 8 '''' ''bVI'' a4" using ex[of "''''" 8] by blast
  obtain b1 where b1: "addWildcard rootIdx 7 '''' ''V'' ''Major V (Harmonic)'' = Inr b1"
    "W 7 '''' ''V'' b1" using ex[of "''''" 7] by blast
  obtain b2 where b2: "addWildcard rootIdx 5 '''' ''IV'' ''Dorian IV'' = Inr b2"
    "W 5 '''' ''IV'' b2" using ex[of "''''" 5] by blast
  obtain b3 where b3: "addWildcard rootIdx 1 '''' ''bII'' ''Neapolitan'' = Inr b3"
    "W 1 '''' ''bII'' b3" using ex[of "''''" 1] by blast
  let ?ws = "if st = ''Major'' \<or> st = ''Mixolydian'' then [a1, a2, a3, a4] else [b1, b2, b3]"
  have eq: "wildcards rootIdx st = map Inr ?ws"
    unfolding wildcards_def a1(1) a2(1) a3(1) a4(1) b1(1) b2(1) b3(1) by simp
  from a1(2) a2(2) a3(2) a4(2) b1(2) b2(2) b3(2)
  have props: "map (\<lambda>c. (root c, quality c, roman c)) ?ws =
       (if st = ''Major'' \<or> st = ''Mixolydian'' then
          [(at ALL_NOTES (jsrem (rootIdx + 10) 12), '''', ''bVII''),
           (at ALL_NOTES (jsrem (rootIdx + 3) 12), '''', ''bIII''),
           (at ALL_NOTES (jsrem (rootIdx + 5) 12), ''m'', ''iv''),
           (at ALL_NOTES (jsrem (rootIdx + 8) 12), '''', ''bVI'')]
        else
          [(at ALL_NOTES (jsrem (rootIdx + 7) 12), '''', ''V''),
           (at ALL_NOTES (jsrem (rootIdx + 5) 12), '''', ''IV''),
           (at ALL_NOTES (jsrem (rootIdx + 1) 12), '''', ''bII'')])"
    unfolding W_def by simp
  from a1(2) a2(2) a3(2) a4(2) b1(2) b2(2) b3(2)
  have tags: "\<forall>c \<in> set ?ws. func c = Stranger \<and> \<not> isDiatonic c \<and> category c = Wildcard \<and>
        chord_notes c = [root c, ''?'', ''?''] \<and> length (voicings c) = 1"
    unfolding W_def by simp
  from eq props tags show ?thesis by blast
qed

lemma filter_heads:
  assumes "\<And>i. P (core i)" and "\<And>i v. v \<in> set (vars i) \<Longrightarrow> \<not> P v"
  shows "filter P (concat (map (\<lambda>i. core i # vars i) xs)) = map core xs"
proof (induction xs)
  case Nil
  show ?case by simp
next
  case (Cons x xs)
  have "filter P (vars x) = []" using assms(2) by (simp add: filter_empty_conv)
  with Cons assms(1) show ?case by simp
qed

lemma filter_tails:
  assumes "\<And>i. \<not> P (core i)" and "\<And>i v. v \<in> set (vars i) \<Longrightarrow> \<not> P v"
  shows "filter P (concat (map (\<lambda>i. core i # vars i) xs)) = []"
proof (induction xs)
  case Nil
  show ?case by simp
next
  case (Cons x xs)
  have "filter P (vars x) = []" using assms(2) by (simp add: filter_empty_conv)
  with Cons assms(1) show ?case by simp
qed

text \<open>The catalog of a registered scale: for each of the seven degrees the Core chord
  and its variations, then the wildcards.\<close>

lemma catalog_structure:
  assumes "(st, pattern) \<in> set SCALE_PATTERNS"
  obtains scale core vars ws where
    "scaleNotes k st = Inr scale" and "length scale = 7" and
    "generateKeyChords k st sty = Inr (concat (map (\<lambda>i. core i # vars i) [0..<7]) @ ws)" and
    "\<forall>i. buildChord (thirdNote sty scale (int i)) (fifthNote scale (int i)) (int i)
            (qualityAt sty scale (int i)) (at scale (int i)) (romanAt sty scale (int i))
            (functionAt st sty (int i)) Team '''' = Inr (core i)" and
    "\<forall>i. \<forall>v \<in> set (vars i).
        category v = Variation \<and> root v = at scale (int i) \<and>
        chord_notes v = [at scale (int i), thirdNote sty scale (int i), fifthNote scale (int i)] \<and>
        quality v \<in> {''sus4'', ''sus2'', ''add9'', ''6'', ''7sus4''} \<and> voicings v \<noteq> []" and
    "wildcards (indexOf ALL_NOTES k) st = map Inr ws"
proof -
  let ?scale = "map (\<lambda>iv. at ALL_NOTES (jsrem (indexOf ALL_NOTES k + iv) 12)) pattern"
  have sn: "scaleNotes k st = Inr ?scale" by (rule scaleNotes_registered[OF assms])
  have len: "length ?scale = 7" using pattern_cases[OF assms] by simp
  define Q where "Q = (\<lambda>(i::nat) (core::Chord) (vars::Chord list).
     degreeChords st sty ?scale (int i) = Inr core # map Inr vars \<and>
     buildChord (thirdNote sty ?scale (int i)) (fifthNote ?scale (int i)) (int i)
       (qualityAt sty ?scale (int i)) (at ?scale (int i)) (romanAt sty ?scale (int i))
       (functionAt st sty (int i)) Team '''' = Inr core \<and>
     (\<forall>v \<in> set vars.
        category v = Variation \<and> root v = at ?scale (int i) \<and>
        chord_notes v = [at ?scale (int i), thirdNote sty ?scale (int i), fifthNote ?scale (int i)] \<and>
        quality v \<in> {''sus4'', ''sus2'', ''add9'', ''6'', ''7sus4''} \<and> voicings v \<noteq> []))"
  have "\<forall>i. \<exists>core. \<exists>vars. Q i core vars"
    unfolding Q_def by (rule allI) (rule degreeChords_structure)
  from choice[OF this] obtain core where "\<forall>i. \<exists>vars. Q i (core i) vars" ..
  from choice[OF this] obtain vars where Q: "\<forall>i. Q i (core i) (vars i)" ..
  have cv1: "degreeChords st sty ?scale (int i) = Inr (core i) # map Inr (vars i)" for i
    using Q unfolding Q_def by blast
  have cv2: "buildChord (thirdNote sty ?scale (int i)) (fifthNote ?scale (int i)) (int i)
       (qualityAt sty ?scale (int i)) (at ?scale (int i)) (romanAt sty ?scale (int i))
       (functionAt st sty (int i)) Team '''' = Inr (core i)" for i
    using Q unfolding Q_def by blast
  have cv3: "category v = Variation \<and> root v = at ?scale (int i) \<and>
        chord_notes v = [at ?scale (int i), thirdNote sty ?scale (int i), fifthNote ?scale (int i)] \<and>
        quality v \<in> {''sus4'', ''sus2'', ''add9'', ''6'', ''7sus4''} \<and> voicings v \<noteq> []"
    if "v \<in> set (vars i)" for i v
    using Q that unfolding Q_def by blast
  obtain ws where ws: "wildcards (indexOf ALL_NOTES k) st = map Inr ws"
    using wildcards_structure by blast
  have "concat (map (\<lambda>i. degreeChords st sty ?scale (int i)) [0..<7]) =
        map Inr (concat (map (\<lambda>i. core i # vars i) [0..<7]))"
    by (simp add: cv1 map_concat comp_def)
  then have "generateKeyChords k st sty =
        pushed (map Inr (concat (map (\<lambda>i. core i # vars i) [0..<7]) @ ws))"
    unfolding generateKeyChords_def sn using len ws by simp
  then have g: "generateKeyChords k st sty = Inr (concat (map (\<lambda>i. core i # vars i) [0..<7]) @ ws)"
    by (simp only: pushed_map_Inr)
  have cv2': "\<forall>i. buildChord (thirdNote sty ?scale (int i)) (fifthNote ?scale (int i)) (int i)
       (qualityAt sty ?scale (int i)) (at ?scale (int i)) (romanAt sty ?scale (int i))
       (functionAt st sty (int i)) Team '''' = Inr (core i)"
    using cv2 by blast
  have cv3': "\<forall>i. \<forall>v \<in> set (vars i). category v = Variation \<and> root v = at ?scale (int i) \<and>
        chord_notes v = [at ?scale (int i), thirdNote sty ?scale (int i), fifthNote ?scale (int i)] \<and>
        quality v \<in> {''sus4'', ''sus2'', ''add9'', ''6'', ''7sus4''} \<and> voicings v \<noteq> []"
    using cv3 by blast
  show thesis
    by (rule that[OF sn len g cv2' cv3' ws])
qed

lemma catalog_registered:
  assumes "generateKeyChords k st sty = Inr cs"
  shows "\<exists>pattern. (st, pattern) \<in> set SCALE_PATTERNS"
proof (cases "property SCALE_PATTERNS st")
  case (Own pattern)
  then have "(st, pattern) \<in> set SCALE_PATTERNS" by (simp only: registered)
  then show ?thesis ..
next
  case Inherited
  with assms show ?thesis by (simp add: generateKeyChords_def scaleNotes_def)
next
  case Absent
  with assms show ?thesis by (simp add: generateKeyChords_def scaleNotes_def)
qed

lemma unregistered:
  assumes "st \<notin> fst ` set SCALE_PATTERNS"
  shows "scaleNotes k st = Inl TypeError \<and> generateKeyChords k st sty = Inl TypeError"
proof -
  have sn: "scaleNotes k st = Inl TypeError"
  proof (cases "property SCALE_PATTERNS st")
    case (Own pattern)
    then have "(st, pattern) \<in> set SCALE_PATTERNS" by (simp only: registered)
    then have "st \<in> fst ` set SCALE_PATTERNS" by (rule image_eqI[rotated]) simp
    with assms show ?thesis by simp
  next
    case Inherited
    then show ?thesis by (simp add: scaleNotes_def)
  next
    case Absent
    then show ?thesis by (simp add: scaleNotes_def)
  qed
  then have "generateKeyChords k st sty = Inl TypeError"
    by (simp add: generateKeyChords_def)
  with sn show ?thesis ..
qed

text \<open>
  The chords of a catalog. Its Core chords are the seven chords built on the degrees;
  its wildcards are those \<^verbatim>\<open>addWildcard\<close> pushed; and every other chord is a
  variation built on a degree with the notes of that degree's Core chord.
\<close>

lemma catalog_facts:
  assumes "scaleNotes k st = Inr scale" and "generateKeyChords k st sty = Inr cs"
  shows "length (teamChords cs) = 7 \<and>
         (\<forall>i<7. buildChord (thirdNote sty scale (int i)) (fifthNote scale (int i)) (int i)
            (qualityAt sty scale (int i)) (at scale (int i)) (romanAt sty scale (int i))
            (functionAt st sty (int i)) Team '''' = Inr (teamChords cs ! i)) \<and>
         map Inr (wildcardChords cs) = wildcards (indexOf ALL_NOTES k) st \<and>
         (\<forall>c \<in> set cs. c \<in> set (teamChords cs) \<or> c \<in> set (wildcardChords cs) \<or>
            (category c = Variation \<and> voicings c \<noteq> [] \<and>
             quality c \<in> {''sus4'', ''sus2'', ''add9'', ''6'', ''7sus4''} \<and>
             (\<exists>i<7. root c = at scale (int i) \<and> chord_notes c =
                [at scale (int i), thirdNote sty scale (int i), fifthNote scale (int i)])))"
proof -
  from catalog_registered[OF assms(2)] obtain pattern
    where reg: "(st, pattern) \<in> set SCALE_PATTERNS" ..
  from reg obtain scale' core vars ws where s:
    "scaleNotes k st = Inr scale'" "length scale' = 7"
    "generateKeyChords k st sty = Inr (concat (map (\<lambda>i. core i # vars i) [0..<7]) @ ws)"
    "\<forall>i. buildChord (thirdNote sty scale' (int i)) (fifthNote scale' (int i)) (int i)
            (qualityAt sty scale' (int i)) (at scale' (int i)) (romanAt sty scale' (int i))
            (functionAt st sty (int i)) Team '''' = Inr (core i)"
    "\<forall>i. \<forall>v \<in> set (vars i).
        category v = Variation \<and> root v = at scale' (int i) \<and>
        chord_notes v = [at scale' (int i), thirdNote sty scale' (int i), fifthNote scale' (int i)] \<and>
        quality v \<in> {''sus4'', ''sus2'', ''add9'', ''6'', ''7sus4''} \<and> voicings v \<noteq> []"
    "wildcards (indexOf ALL_NOTES k) st = map Inr ws"
    by (rule catalog_structure[where k = k and sty = sty])
  have sc: "scale' = scale" using s(1) assms(1) by simp
  have cs: "cs = concat (map (\<lambda>i. core i # vars i) [0..<7]) @ ws" using s(3) assms(2) by simp
  have team: "category (core i) = Team" for i using buildChord_fields[OF s(4)[rule_format, of i]] by simp
  have var: "category v = Variation" if "v \<in> set (vars i)" for i v using s(5) that by blast
  obtain ws' where ws': "wildcards (indexOf ALL_NOTES k) st = map Inr ws'"
    "\<forall>c \<in> set ws'. category c = Wildcard"
    using wildcards_structure[of "indexOf ALL_NOTES k" st] by blast
  have "map Inr ws = (map Inr ws' :: (error + Chord) list)" using s(6) ws'(1) by simp
  then have "ws = ws'" by (simp add: inj_map_eq_map)
  with ws'(2) have wild: "\<forall>c \<in> set ws. category c = Wildcard" by simp
  have "filter (\<lambda>c. category c = Team) (concat (map (\<lambda>i. core i # vars i) [0..<7])) =
        map core [0..<7]"
    by (rule filter_heads) (simp_all add: team var)
  moreover have "filter (\<lambda>c. category c = Team) ws = []"
    using wild by (simp add: filter_empty_conv)
  ultimately have t: "teamChords cs = map core [0..<7]"
    unfolding teamChords_def cs by simp
  have "filter (\<lambda>c. category c = Wildcard) (concat (map (\<lambda>i. core i # vars i) [0..<7])) = []"
    by (rule filter_tails) (simp_all add: team var)
  moreover have "filter (\<lambda>c. category c = Wildcard) ws = ws"
    using wild by (simp add: filter_id_conv)
  ultimately have w: "wildcardChords cs = ws" unfolding wildcardChords_def cs by simp
  have A: "length (teamChords cs) = 7" unfolding t by simp
  have B: "\<forall>i<7. buildChord (thirdNote sty scale (int i)) (fifthNote scale (int i)) (int i)
            (qualityAt sty scale (int i)) (at scale (int i)) (romanAt sty scale (int i))
            (functionAt st sty (int i)) Team '''' = Inr (teamChords cs ! i)"
    unfolding t using s(4) sc by simp
  have C: "map Inr (wildcardChords cs) = wildcards (indexOf ALL_NOTES k) st"
    unfolding w using s(6) by simp
  have D: "\<forall>c \<in> set cs. c \<in> set (teamChords cs) \<or> c \<in> set (wildcardChords cs) \<or>
            (category c = Variation \<and> voicings c \<noteq> [] \<and>
             quality c \<in> {''sus4'', ''sus2'', ''add9'', ''6'', ''7sus4''} \<and>
             (\<exists>i<7. root c = at scale (int i) \<and> chord_notes c =
                [at scale (int i), thirdNote sty scale (int i), fifthNote scale (int i)]))"
  proof
    fix c assume c: "c \<in> set cs"
    then consider "c \<in> set ws" | i where "i < 7" "c = core i"
      | i where "i < 7" "c \<in> set (vars i)"
      unfolding cs by auto
    then show "c \<in> set (teamChords cs) \<or> c \<in> set (wildcardChords cs) \<or>
            (category c = Variation \<and> voicings c \<noteq> [] \<and>
             quality c \<in> {''sus4'', ''sus2'', ''add9'', ''6'', ''7sus4''} \<and>
             (\<exists>i<7. root c = at scale (int i) \<and> chord_notes c =
                [at scale (int i), thirdNote sty scale (int i), fifthNote scale (int i)]))"
    proof cases
      case 1
      then show ?thesis using w by simp
    next
      case 2
      then show ?thesis unfolding t by simp
    next
      case 3
      have "category c = Variation \<and> voicings c \<noteq> [] \<and>
             quality c \<in> {''sus4'', ''sus2'', ''add9'', ''6'', ''7sus4''} \<and>
             (\<exists>i<7. root c = at scale (int i) \<and> chord_notes c =
                [at scale (int i), thirdNote sty scale (int i), fifthNote scale (int i)])"
        using s(5)[rule_format, OF 3(2)] 3(1) unfolding sc by (intro conjI exI[of _ i]) simp_all
      then show ?thesis by (intro disjI2)
    qed
  qed
  from A B C D show ?thesis by (intro conjI)
qed

lemma scaleNotes_of_catalog:
  assumes "generateKeyChords k st sty = Inr cs"
  shows "\<exists>scale. scaleNotes k st = Inr scale"
  using assms by (cases "scaleNotes k st") (simp_all add: generateKeyChords_def)

lemma catalog_succeeds:
  assumes "st \<in> fst ` set SCALE_PATTERNS"
  shows "(\<exists>scale. scaleNotes k st = Inr scale) \<and> (\<exists>cs. generateKeyChords k st sty = Inr cs)"
proof -
  from assms obtain pattern where reg: "(st, pattern) \<in> set SCALE_PATTERNS" by auto
  from reg obtain scale core vars ws where
    "scaleNotes k st = Inr scale" "length scale = 7"
    "generateKeyChords k st sty = Inr (concat (map (\<lambda>i. core i # vars i) [0..<7]) @ ws)"
    "\<forall>i. buildChord (thirdNote sty scale (int i)) (fifthNote scale (int i)) (int i)
            (qualityAt sty scale (int i)) (at scale (int i)) (romanAt sty scale (int i))
            (functionAt st sty (int i)) Team '''' = Inr (core i)"
    "\<forall>i. \<forall>v \<in> set (vars i).
        category v = Variation \<and> root v = at scale (int i) \<and>
        chord_notes v = [at scale (int i), thirdNote sty scale (int i), fifthNote scale (int i)] \<and>
        quality v \<in> {''sus4'', ''sus2'', ''add9'', ''6'', ''7sus4''} \<and> voicings v \<noteq> []"
    "wildcards (indexOf ALL_NOTES k) st = map Inr ws"
    by (rule catalog_structure[where k = k and sty = sty])
  then show ?thesis by blast
qed

lemma registered_names:
  "''Major'' \<in> fst ` set SCALE_PATTERNS"
  "''Lydian'' \<in> fst ` set SCALE_PATTERNS"
  "''Locrian'' \<in> fst ` set SCALE_PATTERNS"
  by (simp_all add: SCALE_PATTERNS_def)

lemma scale_C_Major:
  "scaleNotes ''C'' ''Major'' = Inr [''C'', ''D'', ''E'', ''F'', ''G'', ''A'', ''B'']"
  by (simp add: scaleNotes_def property_def SCALE_PATTERNS_def ALL_NOTES_def at_def jsrem_def)

text \<open>
  Claim C9. A scale name that is not registered makes the scale construction and
  \<^verbatim>\<open>generateKeyChords\<close> fail: the call \<^verbatim>\<open>pattern.map\<close> throws, the exception
  reaches the caller and no list of chords is returned. This is the only failure of the
  call, the one the specification names UnknownScale. For every registered name, with any
  root and style, both succeed.
\<close>

theorem C9_unknown_scale:
  "(scaleType \<notin> fst ` set SCALE_PATTERNS \<longrightarrow>
      scaleNotes keyRoot scaleType = Inl TypeError \<and>
      generateKeyChords keyRoot scaleType style = Inl TypeError) \<and>
   (scaleType \<in> fst ` set SCALE_PATTERNS \<longrightarrow>
      (\<exists>scale. scaleNotes keyRoot scaleType = Inr scale) \<and>
      (\<exists>cs. generateKeyChords keyRoot scaleType style = Inr cs))"
  using unregistered[of scaleType keyRoot style] catalog_succeeds[of scaleType keyRoot style]
  by blast

theorem C9_unknown_scale_witness:
  "scaleNotes ''C'' ''Blues Scale'' = Inl TypeError \<and>
   generateKeyChords ''C'' ''Blues Scale'' ''Pop'' = Inl TypeError \<and>
   (\<exists>scale. scaleNotes ''C'' ''Major'' = Inr scale) \<and>
   (\<exists>cs. generateKeyChords ''C'' ''Major'' ''Pop'' = Inr cs)"
proof -
  have a: "''Blues Scale'' \<notin> fst ` set SCALE_PATTERNS"
    by (simp add: SCALE_PATTERNS_def)
  from C9_unknown_scale[of "''Blues Scale''" "''C''" "''Pop''"] a
    C9_unknown_scale[of "''Major''" "''C''" "''Pop''"] registered_names(1)
  show ?thesis by blast
qed

lemma shape_key_absent:
  assumes "q \<notin> set OBJECT_PROTOTYPE_KEYS"
  shows "property CHORD_SHAPES q = Absent \<longleftrightarrow> q \<notin> fst ` set CHORD_SHAPES"
  using assms by (simp add: property_absent map_of_eq_None_iff)

lemma startsWith_take:
  "startsWith q ''m'' \<longleftrightarrow> take 1 q = ''m''"
  "startsWith q ''dim'' \<longleftrightarrow> take 3 q = ''dim''"
  by (simp_all add: startsWith_def numeral_3_eq_3)

lemma shapeKeyOf_chain:
  assumes "q \<notin> set OBJECT_PROTOTYPE_KEYS"
  shows "(q \<in> fst ` set CHORD_SHAPES \<longrightarrow> shapeKeyOf q = q) \<and>
         (q \<notin> fst ` set CHORD_SHAPES \<longrightarrow>
            shapeKeyOf q =
              (if q = ''mMaj7'' then ''m7''
               else if take 1 q = ''m'' then ''m''
               else if take 3 q = ''dim'' then ''dim''
               else ''''))"
  unfolding shapeKeyOf_def shape_key_absent[OF assms] startsWith_take by simp

lemma catalog_voicings:
  assumes g: "generateKeyChords keyRoot scaleType style = Inr cs"
  shows "\<forall>c \<in> set cs. voicings c \<noteq> []"
proof
  fix c assume c: "c \<in> set cs"
  from scaleNotes_of_catalog[OF g] obtain scale
    where sn: "scaleNotes keyRoot scaleType = Inr scale" ..
  note cf = catalog_facts[OF sn g]
  from cf c consider "c \<in> set (teamChords cs)" | "c \<in> set (wildcardChords cs)"
    | "voicings c \<noteq> []" by blast
  then show "voicings c \<noteq> []"
  proof cases
    case 1
    then obtain j where j: "j < 7" "c = teamChords cs ! j"
      using cf by (metis in_set_conv_nth)
    with cf have "buildChord (thirdNote style scale (int j)) (fifthNote scale (int j)) (int j)
          (qualityAt style scale (int j)) (at scale (int j)) (romanAt style scale (int j))
          (functionAt scaleType style (int j)) Team '''' = Inr c" by blast
    from buildChord_fields[OF this] show ?thesis by auto
  next
    case 2
    then have "Inr c \<in> set (wildcards (indexOf ALL_NOTES keyRoot) scaleType)"
      using cf by (metis image_eqI set_map)
    moreover obtain ws where "wildcards (indexOf ALL_NOTES keyRoot) scaleType = map Inr ws"
      "\<forall>c \<in> set ws. length (voicings c) = 1"
      using wildcards_structure[of "indexOf ALL_NOTES keyRoot" scaleType] by blast
    ultimately have "length (voicings c) = 1" by auto
    then show ?thesis by auto
  next
    case 3
    then show ?thesis .
  qed
qed

text \<open>
  Claim C6, as the code has it. For every root and every quality tag, \<^verbatim>\<open>buildChord\<close>
  is total and returns a chord whose voicings begin with the E-shape and A-shape voicings
  of a template that the shape table defines. The template is chosen by this chain: the
  exact quality when the table has it; else \<open>m7\<close> for \<open>mMaj7\<close>; else the bare triad
  \<open>m\<close> for a tag that starts with m, or \<open>dim\<close> for one that starts with dim; else
  major. The tags the classifier produces are quality tags. So every chord of a catalog
  has at least one voicing. (A quality tag is a string that is not the name of a property
  every object inherits.)
\<close>

theorem C6_template_chain:
  assumes "q \<notin> set OBJECT_PROTOTYPE_KEYS"
  shows "(q \<in> fst ` set CHORD_SHAPES \<longrightarrow> shapeKeyOf q = q) \<and>
         (q \<notin> fst ` set CHORD_SHAPES \<longrightarrow>
            shapeKeyOf q =
              (if q = ''mMaj7'' then ''m7''
               else if take 1 q = ''m'' then ''m''
               else if take 3 q = ''dim'' then ''dim''
               else '''')) \<and>
         (\<exists>sh. (shapeKeyOf q, sh) \<in> set CHORD_SHAPES \<and> shapeTemplateOf q = Own sh \<and>
            (\<exists>c. buildChord t fi i q n r f cat cid = Inr c \<and>
               voicings c = [eShapeVoicing sh n, aShapeVoicing sh n] @ inversions q t fi)) \<and>
         getQualityFromIntervals a b s \<notin> set OBJECT_PROTOTYPE_KEYS \<and>
         (generateKeyChords keyRoot scaleType style = Inr cs \<longrightarrow>
            (\<forall>c \<in> set cs. voicings c \<noteq> []))"
proof -
  note A = shapeKeyOf_chain[OF assms]
  obtain sh c where sh: "(shapeKeyOf q, sh) \<in> set CHORD_SHAPES"
    and c: "buildChord t fi i q n r f cat cid = Inr c"
    "voicings c = [eShapeVoicing sh n, aShapeVoicing sh n] @ inversions q t fi"
    using buildChord_Inr[OF assms, of t fi i n r f cat cid] by blast
  obtain sh' where sh': "(shapeKeyOf q, sh') \<in> set CHORD_SHAPES" "shapeTemplateOf q = Own sh'"
    using shapeTemplateOf_total[OF assms] by blast
  have "sh' = sh"
    using sh sh'(1) distinct_shape_keys by (meson eq_key_imp_eq_value)
  with sh sh'(2) c
  have B: "\<exists>sh. (shapeKeyOf q, sh) \<in> set CHORD_SHAPES \<and> shapeTemplateOf q = Own sh \<and>
            (\<exists>c. buildChord t fi i q n r f cat cid = Inr c \<and>
               voicings c = [eShapeVoicing sh n, aShapeVoicing sh n] @ inversions q t fi)"
    by blast
  have C: "getQualityFromIntervals a b s \<notin> set OBJECT_PROTOTYPE_KEYS"
    using gq_range[of a b s] by (intro tags_not_inherited) blast
  have D: "generateKeyChords keyRoot scaleType style = Inr cs \<longrightarrow>
            (\<forall>c \<in> set cs. voicings c \<noteq> [])"
    using catalog_voicings by blast
  from conjunct1[OF A] conjunct2[OF A] B C D show ?thesis by (intro conjI)
qed

theorem C6_template_chain_witness:
  "shapeKeyOf ''m7b5'' = ''m7b5'' \<and> shapeKeyOf ''mMaj7'' = ''m7'' \<and>
   (\<exists>sh c. (''m7'', sh) \<in> set CHORD_SHAPES \<and>
      buildChord ''D#'' ''G'' 0 ''mMaj7'' ''C'' ''i7'' Home Team '''' = Inr c \<and>
      voicings c = [eShapeVoicing sh ''C'', aShapeVoicing sh ''C''] @
                   inversions ''mMaj7'' ''D#'' ''G'') \<and>
   (\<exists>cs. generateKeyChords ''C'' ''Major'' ''Pop'' = Inr cs \<and>
      list_all (\<lambda>c. voicings c \<noteq> []) cs)"
proof -
  have h: "''mMaj7'' \<notin> set OBJECT_PROTOTYPE_KEYS" "''m7b5'' \<notin> set OBJECT_PROTOTYPE_KEYS"
    by (simp_all add: OBJECT_PROTOTYPE_KEYS_def)
  have k: "''mMaj7'' \<notin> fst ` set CHORD_SHAPES" "''m7b5'' \<in> fst ` set CHORD_SHAPES"
    by (simp_all add: CHORD_SHAPES_def)
  obtain cs where g: "generateKeyChords ''C'' ''Major'' ''Pop'' = Inr cs"
    using catalog_succeeds[OF registered_names(1)] by blast
  note t = C6_template_chain[OF h(1), of "''D#''" "''G''" 0 "''C''" "''i7''" Home Team "''''"
      0 0 None "''C''" "''Major''" "''Pop''" cs]
  note u = C6_template_chain[OF h(2), of "''D#''" "''G''" 0 "''C''" "''i7''" Home Team "''''"
      0 0 None "''C''" "''Major''" "''Pop''" cs]
  from conjunct1[OF u] k(2) have A: "shapeKeyOf ''m7b5'' = ''m7b5''" by blast
  from conjunct1[OF conjunct2[OF t]] k(1) have B: "shapeKeyOf ''mMaj7'' = ''m7''" by simp
  from conjunct1[OF conjunct2[OF conjunct2[OF t]]]
  have C: "\<exists>sh c. (''m7'', sh) \<in> set CHORD_SHAPES \<and>
      buildChord ''D#'' ''G'' 0 ''mMaj7'' ''C'' ''i7'' Home Team '''' = Inr c \<and>
      voicings c = [eShapeVoicing sh ''C'', aShapeVoicing sh ''C''] @
                   inversions ''mMaj7'' ''D#'' ''G''"
    unfolding B by blast
  from conjunct2[OF conjunct2[OF conjunct2[OF conjunct2[OF t]]]] g
  have D: "list_all (\<lambda>c. voicings c \<noteq> []) cs" by (simp only: list_all_iff) blast
  from A B C D g show ?thesis by blast
qed

text \<open>
  Claim C6 as stated fails in its chain. The tag \<open>mMaj7\<close>, which the classifier gives
  for the intervals (3,7,11), has no template of its own; the template selected for it is
  that of \<open>m7\<close>, which is neither the bare minor or diminished triad nor major.
\<close>

theorem C6_mMaj7_takes_m7:
  "getQualityFromIntervals 3 7 (Some 11) = ''mMaj7'' \<and>
   property CHORD_SHAPES ''mMaj7'' = Absent \<and>
   shapeKeyOf ''mMaj7'' = ''m7'' \<and>
   shapeKeyOf ''mMaj7'' \<notin> {''m'', ''dim'', ''''}"
  by (simp add: getQualityFromIntervals_def shapeKeyOf_def property_def CHORD_SHAPES_def
      OBJECT_PROTOTYPE_KEYS_def)

section \<open>Core chords\<close>

lemma core_chord_fields:
  assumes "scaleNotes k st = Inr scale" and "generateKeyChords k st sty = Inr cs" and "i < 7"
  shows "root (teamChords cs ! i) = at scale (int i) \<and>
         quality (teamChords cs ! i) = qualityAt sty scale (int i) \<and>
         chord_notes (teamChords cs ! i) =
           [at scale (int i), thirdNote sty scale (int i), fifthNote scale (int i)] \<and>
         roman (teamChords cs ! i) = romanAt sty scale (int i) \<and>
         func (teamChords cs ! i) = functionAt st sty (int i) \<and>
         category (teamChords cs ! i) = Team \<and>
         (\<exists>sh. shapeTemplateOf (qualityAt sty scale (int i)) = Own sh \<and>
            voicings (teamChords cs ! i) =
              [eShapeVoicing sh (at scale (int i)), aShapeVoicing sh (at scale (int i))] @
              inversions (qualityAt sty scale (int i)) (thirdNote sty scale (int i))
                (fifthNote scale (int i)))"
proof -
  from catalog_facts[OF assms(1,2)] assms(3)
  have "buildChord (thirdNote sty scale (int i)) (fifthNote scale (int i)) (int i)
            (qualityAt sty scale (int i)) (at scale (int i)) (romanAt sty scale (int i))
            (functionAt st sty (int i)) Team '''' = Inr (teamChords cs ! i)" by blast
  from buildChord_fields[OF this] show ?thesis by simp
qed

lemma team_member:
  assumes "scaleNotes k st = Inr scale" and "generateKeyChords k st sty = Inr cs"
    and "c \<in> set (teamChords cs)"
  shows "\<exists>i<7. c = teamChords cs ! i"
proof -
  have "length (teamChords cs) = 7" using catalog_facts[OF assms(1,2)] by blast
  with assms(3) show ?thesis by (metis in_set_conv_nth)
qed

text \<open>
  Claim C3, as the code has it. For every Core chord of a catalog the first of its notes
  is its root, and its notes are three (root, third, fifth) whatever its quality, triad
  or seventh: \<^verbatim>\<open>buildChord\<close> never stores the seventh.
\<close>

theorem C3_core_notes:
  assumes "generateKeyChords keyRoot scaleType style = Inr cs" and "c \<in> set (teamChords cs)"
  shows "chord_notes c ! 0 = root c \<and> length (chord_notes c) = 3"
proof -
  from scaleNotes_of_catalog[OF assms(1)] obtain scale
    where sn: "scaleNotes keyRoot scaleType = Inr scale" ..
  from team_member[OF sn assms] obtain i where i: "i < 7" "c = teamChords cs ! i" by blast
  from core_chord_fields[OF sn assms(1) i(1)] i(2) show ?thesis by simp
qed

theorem C3_core_notes_witness:
  "\<exists>cs. generateKeyChords ''C'' ''Major'' ''Pop'' = Inr cs \<and> teamChords cs \<noteq> [] \<and>
        chord_notes (hd (teamChords cs)) ! 0 = root (hd (teamChords cs)) \<and>
        length (chord_notes (hd (teamChords cs))) = 3"
proof -
  obtain cs where g: "generateKeyChords ''C'' ''Major'' ''Pop'' = Inr cs"
    using catalog_succeeds[OF registered_names(1)] by blast
  have "length (teamChords cs) = 7" using catalog_facts[OF scale_C_Major g] by blast
  then have ne: "teamChords cs \<noteq> []" by auto
  then have "hd (teamChords cs) \<in> set (teamChords cs)" by simp
  from C3_core_notes[OF g this] g ne show ?thesis by blast
qed

text \<open>
  Claim C3 as stated fails: in the catalog of C Major in the Jazz style the Core chord of
  the first degree has the seventh quality \<open>maj7\<close> and three notes, not four.
\<close>

theorem C3_seventh_chord_three_notes:
  "(case generateKeyChords ''C'' ''Major'' ''Jazz'' of
      Inr cs \<Rightarrow> quality (teamChords cs ! 0) = ''maj7'' \<and>
                length (chord_notes (teamChords cs ! 0)) = 3
    | Inl e \<Rightarrow> False)"
proof -
  obtain cs where g: "generateKeyChords ''C'' ''Major'' ''Jazz'' = Inr cs"
    using catalog_succeeds[OF registered_names(1)] by blast
  have q: "qualityAt ''Jazz'' [''C'', ''D'', ''E'', ''F'', ''G'', ''A'', ''B''] 0 = ''maj7''"
    by (simp add: qualityAt_def thirdNote_def fifthNote_def seventhNote_def isBluesDominant_def
        useSevenths_def intervalAbove_def at_def jsrem_def ALL_NOTES_def
        getQualityFromIntervals_def)
  from core_chord_fields[OF scale_C_Major g, of 0] q g show ?thesis by simp
qed

section \<open>Intervals above a root\<close>

lemma mod12_transposed:
  fixes r d :: int
  assumes "0 \<le> d" "d < 12"
  shows "((r + d) mod 12 - r + 12) mod 12 = d"
proof -
  have "((r + d) mod 12 - r + 12) mod 12 = ((r + d) mod 12 - r) mod 12" by simp
  also have "\<dots> = (r + d - r) mod 12" by (simp only: mod_diff_left_eq)
  also have "\<dots> = d" using assms by simp
  finally show ?thesis .
qed


lemma interval_transposed:
  assumes "0 \<le> r" "r < 12" "0 \<le> d" "d < 12"
  shows "intervalAbove (at ALL_NOTES r) (at ALL_NOTES ((r + d) mod 12)) = d"
proof -
  have "0 \<le> (r + d) mod 12" "(r + d) mod 12 < 12" by simp_all
  then have i: "indexOf ALL_NOTES (at ALL_NOTES ((r + d) mod 12)) = (r + d) mod 12"
    by (rule indexOf_at)
  have nn: "0 \<le> (r + d) mod 12 - r + 12" using assms(2) by simp
  have "jsrem ((r + d) mod 12 - r + 12) 12 = ((r + d) mod 12 - r + 12) mod 12"
    using nn by (rule jsrem_nonneg) simp
  also have "\<dots> = d" by (rule mod12_transposed[OF assms(3,4)])
  finally show ?thesis
    unfolding intervalAbove_def i indexOf_at[OF assms(1,2)] .
qed


lemma scale_note:
  assumes "keyRoot \<in> set ALL_NOTES" and "scaleNotes keyRoot st = Inr scale" and "i < 7"
  shows "length scale = 7 \<and> at scale (int i) = scale ! i \<and> scale ! i \<in> set ALL_NOTES"
proof -
  obtain pattern where reg: "(st, pattern) \<in> set SCALE_PATTERNS"
    using assms(2) by (cases "property SCALE_PATTERNS st")
      (auto simp add: scaleNotes_def registered)
  from scale_tones[OF assms(1) reg] assms(2)
  have len: "length scale = 7" and sub: "set scale \<subseteq> set ALL_NOTES" by auto
  from len assms(3) have "at scale (int i) = scale ! i" by (simp add: at_def)
  moreover from len assms(3) sub have "scale ! i \<in> set ALL_NOTES" by (simp add: subset_iff)
  ultimately show ?thesis using len by simp
qed

lemma gq_major_third_minor_seventh:
  "getQualityFromIntervals 4 f (Some 10) = (if f = 7 then ''7'' else '''')"
  by (simp add: getQualityFromIntervals_def)

section \<open>The blues override\<close>

text \<open>
  What the override does, for every root and registered scale: in the Blues style, on
  degrees 1, 4 and 5, the third is the major third (interval 4) above the degree's root
  and the seventh given to the classifier is the minor seventh (interval 10) above it,
  whatever the scale's own tones are. The fifth is not overridden: it stays the scale's
  own, and the quality is dominant-7 only when that fifth is perfect.
\<close>

lemma blues_override:
  assumes "keyRoot \<in> set ALL_NOTES" and "scaleNotes keyRoot scaleType = Inr scale"
    and "generateKeyChords keyRoot scaleType ''Blues'' = Inr cs" and "i \<in> {0, 3, 4}"
  shows "root (teamChords cs ! i) = scale ! i \<and>
         thirdNote ''Blues'' scale (int i) =
           at ALL_NOTES ((indexOf ALL_NOTES (scale ! i) + 4) mod 12) \<and>
         seventhNote ''Blues'' scale (int i) =
           at ALL_NOTES ((indexOf ALL_NOTES (scale ! i) + 10) mod 12) \<and>
         intervalAbove (scale ! i) (thirdNote ''Blues'' scale (int i)) = 4 \<and>
         intervalAbove (scale ! i) (seventhNote ''Blues'' scale (int i)) = 10 \<and>
         chord_notes (teamChords cs ! i) =
           [scale ! i, thirdNote ''Blues'' scale (int i), scale ! ((i + 4) mod 7)] \<and>
         quality (teamChords cs ! i) =
           getQualityFromIntervals 4 (intervalAbove (scale ! i) (scale ! ((i + 4) mod 7)))
             (Some 10) \<and>
         quality (teamChords cs ! i) =
           (if intervalAbove (scale ! i) (scale ! ((i + 4) mod 7)) = 7 then ''7'' else '''')"
proof -
  have i7: "i < 7" using assms(4) by auto
  have blues: "isBluesDominant ''Blues'' (int i)"
    using assms(4) by (auto simp add: isBluesDominant_def)
  from scale_note[OF assms(1,2) i7]
  have len: "length scale = 7" and at_i: "at scale (int i) = scale ! i"
    and nt: "scale ! i \<in> set ALL_NOTES" by simp_all
  let ?r = "indexOf ALL_NOTES (scale ! i)"
  have r: "0 \<le> ?r" "?r < 12" "at ALL_NOTES ?r = scale ! i" using note_index[OF nt] by simp_all
  have third: "thirdNote ''Blues'' scale (int i) = at ALL_NOTES ((?r + 4) mod 12)"
    using blues r(1) by (simp add: thirdNote_def at_i jsrem_nonneg)
  have seventh: "seventhNote ''Blues'' scale (int i) = at ALL_NOTES ((?r + 10) mod 12)"
    using blues r(1) by (simp add: seventhNote_def at_i jsrem_nonneg)
  have fifth: "fifthNote scale (int i) = scale ! ((i + 4) mod 7)"
  proof -
    have "jsrem (int i + 4) 7 = int ((i + 4) mod 7)"
      by (simp add: jsrem_nonneg zmod_int)
    then show ?thesis using len by (simp add: fifthNote_def at_def)
  qed
  have i3: "intervalAbove (scale ! i) (thirdNote ''Blues'' scale (int i)) = 4"
    unfolding third using interval_transposed[OF r(1,2), of 4] r(3) by simp
  have i7th: "intervalAbove (scale ! i) (seventhNote ''Blues'' scale (int i)) = 10"
    unfolding seventh using interval_transposed[OF r(1,2), of 10] r(3) by simp
  have q: "qualityAt ''Blues'' scale (int i) =
      getQualityFromIntervals 4 (intervalAbove (scale ! i) (scale ! ((i + 4) mod 7))) (Some 10)"
    using blues by (simp add: qualityAt_def useSevenths_def at_i i3 i7th fifth)
  note f = core_chord_fields[OF assms(2,3) i7]
  have A: "root (teamChords cs ! i) = scale ! i" using f at_i by simp
  have B: "chord_notes (teamChords cs ! i) =
           [scale ! i, thirdNote ''Blues'' scale (int i), scale ! ((i + 4) mod 7)]"
    using f at_i fifth by simp
  have C: "quality (teamChords cs ! i) =
      getQualityFromIntervals 4 (intervalAbove (scale ! i) (scale ! ((i + 4) mod 7))) (Some 10)"
    using f q by simp
  have D: "quality (teamChords cs ! i) =
           (if intervalAbove (scale ! i) (scale ! ((i + 4) mod 7)) = 7 then ''7'' else '''')"
    unfolding C by (rule gq_major_third_minor_seventh)
  from A third seventh i3 i7th B C D show ?thesis by (intro conjI)
qed

text \<open>
  Claim C4 against the code. The override is meant to force a dominant-7 chord on
  degrees 1, 4 and 5 (the flag is \<^verbatim>\<open>isBluesDominant\<close>, the style is described as
  dominant cycles), but it leaves the fifth to the scale. The first degree of C Locrian
  has a diminished fifth: in the Blues style its Core chord gets the intervals (4,6,10),
  which the classifier does not know, so the chord is the plain major chord \<open>C\<close> with
  the Roman numeral \<open>I\<close> and the notes C, E, F#, not a dominant-7 chord.
\<close>

theorem C4_blues_locrian_not_dominant:
  "(case generateKeyChords ''C'' ''Locrian'' ''Blues'' of
      Inr cs \<Rightarrow> quality (teamChords cs ! 0) = '''' \<and>
                quality (teamChords cs ! 0) \<noteq> ''7'' \<and>
                root (teamChords cs ! 0) = ''C'' \<and>
                chord_notes (teamChords cs ! 0) = [''C'', ''E'', ''F#'']
    | Inl e \<Rightarrow> False)"
proof -
  let ?loc = "[''C'', ''C#'', ''D#'', ''F'', ''F#'', ''G#'', ''A#'']"
  obtain cs where g: "generateKeyChords ''C'' ''Locrian'' ''Blues'' = Inr cs"
    using catalog_succeeds[OF registered_names(3)] by blast
  have sn: "scaleNotes ''C'' ''Locrian'' = Inr ?loc"
    by (simp add: scaleNotes_def property_def SCALE_PATTERNS_def ALL_NOTES_def at_def jsrem_def)
  have q: "qualityAt ''Blues'' ?loc 0 = ''''"
    by (simp add: qualityAt_def thirdNote_def fifthNote_def seventhNote_def isBluesDominant_def
        useSevenths_def intervalAbove_def at_def jsrem_def ALL_NOTES_def
        getQualityFromIntervals_def)
  have n: "thirdNote ''Blues'' ?loc 0 = ''E''" "fifthNote ?loc 0 = ''F#''"
    by (simp_all add: thirdNote_def fifthNote_def isBluesDominant_def at_def jsrem_def
        ALL_NOTES_def)
  from core_chord_fields[OF sn g, of 0] q n
  have "quality (teamChords cs ! 0) = '''' \<and> root (teamChords cs ! 0) = ''C'' \<and>
        chord_notes (teamChords cs ! 0) = [''C'', ''E'', ''F#'']"
    by (simp add: at_def)
  with g show ?thesis by simp
qed

section \<open>Wildcards\<close>








section \<open>Changing the voicing of a chord of the progression\<close>

lemma next_voicing:
  fixes len :: int
  assumes "2 \<le> len"
  shows "jsrem (0 + 1 + len) len = 1"
proof -
  have "jsrem (0 + 1 + len) len = (0 + 1 + len) mod len"
    using assms by (intro jsrem_nonneg) simp_all
  also have "\<dots> = 1 mod len" by simp
  also have "\<dots> = 1" using assms by simp
  finally show ?thesis .
qed

lemma changeVoicing_after_addChord:
  assumes "activeVoicingIdx c = Num 0" and "2 \<le> length (voicings c)"
  shows "progression (addChord c now
           \<lparr>heap = (\<lambda>r. c), nextRef = 0, progression = [], selectedChord = None\<rparr>) = [0]"
    and "activeVoicingIdx (heap (addChord c now
           \<lparr>heap = (\<lambda>r. c), nextRef = 0, progression = [], selectedChord = None\<rparr>) 0) = Num 0"
    and "progression (changeVoicing 1 (addChord c now
           \<lparr>heap = (\<lambda>r. c), nextRef = 0, progression = [], selectedChord = None\<rparr>)) = [0]"
    and "selectedChord (changeVoicing 1 (addChord c now
           \<lparr>heap = (\<lambda>r. c), nextRef = 0, progression = [], selectedChord = None\<rparr>)) = Some 0"
    and "activeVoicingIdx (heap (changeVoicing 1 (addChord c now
           \<lparr>heap = (\<lambda>r. c), nextRef = 0, progression = [], selectedChord = None\<rparr>)) 0) = Num 1"
proof -
  have n: "voicings c \<noteq> []" using assms(2) by auto
  have "2 \<le> int (length (voicings c))" using assms(2) by linarith
  note nv = next_voicing[OF this]
  note d = addChord_def changeVoicing_def Let_def
  show "progression (addChord c now
           \<lparr>heap = (\<lambda>r. c), nextRef = 0, progression = [], selectedChord = None\<rparr>) = [0]"
    by (simp add: d)
  show "activeVoicingIdx (heap (addChord c now
           \<lparr>heap = (\<lambda>r. c), nextRef = 0, progression = [], selectedChord = None\<rparr>) 0) = Num 0"
    using assms(1) by (simp add: d)
  show "progression (changeVoicing 1 (addChord c now
           \<lparr>heap = (\<lambda>r. c), nextRef = 0, progression = [], selectedChord = None\<rparr>)) = [0]"
    by (simp add: d)
  show "selectedChord (changeVoicing 1 (addChord c now
           \<lparr>heap = (\<lambda>r. c), nextRef = 0, progression = [], selectedChord = None\<rparr>)) = Some 0"
    by (simp add: d)
  show "activeVoicingIdx (heap (changeVoicing 1 (addChord c now
           \<lparr>heap = (\<lambda>r. c), nextRef = 0, progression = [], selectedChord = None\<rparr>)) 0) = Num 1"
    using assms(1) n nv by (simp add: d)
qed

text \<open>
  Claim C5 against the code. \<^verbatim>\<open>changeVoicing\<close> copies the array of the progression and
  then assigns \<^verbatim>\<open>activeVoicingIdx\<close> on the chord object that the copy and the former
  array share. The first chord of the key of C major is added to an empty progression:
  the progression holds one object, with active voicing 0. After \<^verbatim>\<open>changeVoicing(1)\<close>
  the progression holds the same object, now with active voicing 1: the object the former
  progression refers to has been changed in place, and no new chord has been made.
\<close>

theorem C5_changeVoicing_in_place:
  "(case generateKeyChords ''C'' ''Major'' ''Pop'' of
      Inr cs \<Rightarrow>
        progression (addChord (teamChords cs ! 0) 0
          \<lparr>heap = (\<lambda>r. teamChords cs ! 0), nextRef = 0, progression = [],
           selectedChord = None\<rparr>) = [0] \<and>
        activeVoicingIdx (heap (addChord (teamChords cs ! 0) 0
          \<lparr>heap = (\<lambda>r. teamChords cs ! 0), nextRef = 0, progression = [],
           selectedChord = None\<rparr>) 0) = Num 0 \<and>
        progression (changeVoicing 1 (addChord (teamChords cs ! 0) 0
          \<lparr>heap = (\<lambda>r. teamChords cs ! 0), nextRef = 0, progression = [],
           selectedChord = None\<rparr>)) = [0] \<and>
        selectedChord (changeVoicing 1 (addChord (teamChords cs ! 0) 0
          \<lparr>heap = (\<lambda>r. teamChords cs ! 0), nextRef = 0, progression = [],
           selectedChord = None\<rparr>)) = Some 0 \<and>
        activeVoicingIdx (heap (changeVoicing 1 (addChord (teamChords cs ! 0) 0
          \<lparr>heap = (\<lambda>r. teamChords cs ! 0), nextRef = 0, progression = [],
           selectedChord = None\<rparr>)) 0) = Num 1
    | Inl e \<Rightarrow> False)"
proof -
  obtain cs where g: "generateKeyChords ''C'' ''Major'' ''Pop'' = Inr cs"
    using catalog_succeeds[OF registered_names(1)] by blast
  have "buildChord (thirdNote ''Pop'' [''C'', ''D'', ''E'', ''F'', ''G'', ''A'', ''B''] (int 0))
          (fifthNote [''C'', ''D'', ''E'', ''F'', ''G'', ''A'', ''B''] (int 0)) (int 0)
          (qualityAt ''Pop'' [''C'', ''D'', ''E'', ''F'', ''G'', ''A'', ''B''] (int 0))
          (at [''C'', ''D'', ''E'', ''F'', ''G'', ''A'', ''B''] (int 0))
          (romanAt ''Pop'' [''C'', ''D'', ''E'', ''F'', ''G'', ''A'', ''B''] (int 0))
          (functionAt ''Major'' ''Pop'' (int 0)) Team '''' = Inr (teamChords cs ! 0)"
    by (rule conjunct1[OF conjunct2[OF catalog_facts[OF scale_C_Major g]], rule_format, of 0])
      simp
  from buildChord_fields[OF this]
  have a: "activeVoicingIdx (teamChords cs ! 0) = Num 0"
   and l: "2 \<le> length (voicings (teamChords cs ! 0))" by blast+
  show ?thesis unfolding g sum.case
    by (intro conjI changeVoicing_after_addChord[OF a l])
qed

section \<open>The tones of the voicings\<close>















end
